(* ===== verification/Prelude.thy ===== *)
theory Prelude
  imports Main "HOL-Library.Word" "HOL-Library.AList" "HOL-Library.Multiset"
begin

text \<open>
  The vocabulary every component shares: the machine types of the crate
  (\<^typ>\<open>64 word\<close> for \<^verbatim>\<open>u64\<close>, \<^typ>\<open>256 word\<close> for \<^verbatim>\<open>U256\<close> and \<^verbatim>\<open>B256\<close>, ...), Rust's
  \<^verbatim>\<open>Result\<close> as a sum type with the \<^verbatim>\<open>?\<close> operator as a bind, \<^verbatim>\<open>HashMap\<close> as an
  association list whose order is the (unspecified) iteration order, \<^verbatim>\<open>HashSet\<close> as a list
  without repetitions, and the big-endian byte conversions of 256-bit integers.
  The locale at the end is the contract of an update that is folded over a \<^verbatim>\<open>HashMap\<close>:
  when updates of different keys commute, the iteration order does not matter.
\<close>

section \<open>Machine types\<close>

type_synonym u8 = "8 word"
type_synonym u64 = "64 word"
type_synonym u128 = "128 word"
type_synonym u256 = "256 word"
type_synonym bytes = "u8 list"
type_synonym address = "160 word"
type_synonym b256 = "256 word"
type_synonym fn_selector = "32 word"

named_theorems result_simps \<open>reductions of the Result combinators\<close>
named_theorems db_simps \<open>reads of the database layers after an update\<close>
named_theorems hash_simps \<open>lookups in hash maps and membership in hash sets\<close>

section \<open>Results\<close>

type_synonym ('e, 'a) result = "'e + 'a"

definition result_bind :: "('e, 'a) result \<Rightarrow> ('a \<Rightarrow> ('e, 'b) result) \<Rightarrow> ('e, 'b) result" where
  "result_bind r f = (case r of Inl e \<Rightarrow> Inl e | Inr a \<Rightarrow> f a)"

definition map_err :: "('e \<Rightarrow> 'f) \<Rightarrow> ('e, 'a) result \<Rightarrow> ('f, 'a) result" where
  "map_err f r = (case r of Inl e \<Rightarrow> Inl (f e) | Inr a \<Rightarrow> Inr a)"

definition ok_or :: "'e \<Rightarrow> 'a option \<Rightarrow> ('e, 'a) result" where
  "ok_or e x = (case x of None \<Rightarrow> Inl e | Some a \<Rightarrow> Inr a)"

primrec result_fold :: "('s \<Rightarrow> 'a \<Rightarrow> ('e, 's) result) \<Rightarrow> 's \<Rightarrow> 'a list \<Rightarrow> ('e, 's) result" where
  "result_fold f s [] = Inr s"
| "result_fold f s (x # xs) = result_bind (f s x) (\<lambda>s'. result_fold f s' xs)"

primrec result_list :: "('e, 'a) result list \<Rightarrow> ('e, 'a list) result" where
  "result_list [] = Inr []"
| "result_list (r # rs) = result_bind r (\<lambda>a. result_bind (result_list rs) (\<lambda>as. Inr (a # as)))"

primrec error_of :: "('e, 'a) result \<Rightarrow> 'e option" where
  "error_of (Inl e) = Some e"
| "error_of (Inr a) = None"

lemma result_bind_simps [simp, result_simps]:
  "result_bind (Inl e) f = Inl e"
  "result_bind (Inr a) f = f a"
  by (simp_all add: result_bind_def)

lemma map_err_simps [simp, result_simps]:
  "map_err g (Inl e) = Inl (g e)"
  "map_err g (Inr a) = Inr a"
  by (simp_all add: map_err_def)

lemma ok_or_simps [simp, result_simps]:
  "ok_or e None = Inl e"
  "ok_or e (Some a) = Inr a"
  by (simp_all add: ok_or_def)

lemma result_bind_split:
  "P (result_bind r f) \<longleftrightarrow> (\<forall>e. r = Inl e \<longrightarrow> P (Inl e)) \<and> (\<forall>a. r = Inr a \<longrightarrow> P (f a))"
  by (cases r) simp_all

lemma result_bind_split_asm:
  "P (result_bind r f) \<longleftrightarrow>
     \<not> ((\<exists>e. r = Inl e \<and> \<not> P (Inl e)) \<or> (\<exists>a. r = Inr a \<and> \<not> P (f a)))"
  by (cases r) simp_all

lemmas result_bind_splits = result_bind_split result_bind_split_asm

lemma result_bind_eq_Inr:
  "result_bind r f = Inr b \<longleftrightarrow> (\<exists>a. r = Inr a \<and> f a = Inr b)"
  by (cases r) simp_all

lemma result_bind_eq_Inl:
  "result_bind r f = Inl e \<longleftrightarrow> r = Inl e \<or> (\<exists>a. r = Inr a \<and> f a = Inl e)"
  by (cases r) simp_all

lemma map_err_eq_Inr: "map_err g r = Inr a \<longleftrightarrow> r = Inr a"
  by (cases r) simp_all

lemma map_err_eq_Inl: "map_err g r = Inl e \<longleftrightarrow> (\<exists>e'. r = Inl e' \<and> e = g e')"
  by (cases r) auto

lemma ok_or_eq_Inr: "ok_or e x = Inr a \<longleftrightarrow> x = Some a"
  by (cases x) simp_all

lemma ok_or_eq_Inl: "ok_or e x = Inl e' \<longleftrightarrow> x = None \<and> e' = e"
  by (cases x) auto

lemmas result_eqs = result_bind_eq_Inr result_bind_eq_Inl map_err_eq_Inr map_err_eq_Inl
  ok_or_eq_Inr ok_or_eq_Inl

lemma result_fold_append:
  "result_fold f s (xs @ ys) = result_bind (result_fold f s xs) (\<lambda>s'. result_fold f s' ys)"
  by (induction xs arbitrary: s) (simp_all split: result_bind_split)

lemma result_list_Inr: "result_list rs = Inr as \<longleftrightarrow> rs = map Inr as"
proof (induction rs arbitrary: as)
  case Nil
  show ?case by auto
next
  case (Cons r rs)
  show ?case
    by (cases r; cases as) (auto simp: Cons.IH result_eqs)
qed

lemma result_list_map_Inr [simp]: "result_list (map Inr as) = Inr as"
  by (simp add: result_list_Inr)

lemma map_all_Inr: "(\<And>x. x \<in> set xs \<Longrightarrow> \<exists>r. f x = Inr r) \<Longrightarrow> \<exists>rs. map f xs = map Inr rs"
  by (rule exI [of _ "map (projr \<circ> f) xs"]) (force intro: map_cong)

lemma result_list_Inl: "(\<exists>e. result_list rs = Inl e) \<longleftrightarrow> (\<exists>e. Inl e \<in> set rs)"
proof (induction rs)
  case Nil
  show ?case by simp
next
  case (Cons r rs)
  then show ?case
    by (cases r) (auto simp: result_eqs)
qed

section \<open>Hash maps and hash sets\<close>

type_synonym ('k, 'v) hash_map = "('k \<times> 'v) list"
type_synonym 'a hash_set = "'a list"

definition hm_get :: "('k, 'v) hash_map \<Rightarrow> 'k \<Rightarrow> 'v option" where
  "hm_get m k = map_of m k"

definition hm_insert :: "'k \<Rightarrow> 'v \<Rightarrow> ('k, 'v) hash_map \<Rightarrow> ('k, 'v) hash_map" where
  "hm_insert k v m = AList.update k v m"

definition hm_keys :: "('k, 'v) hash_map \<Rightarrow> 'k list" where
  "hm_keys m = map fst m"

definition hm_entry :: "'k \<Rightarrow> 'v \<Rightarrow> ('v \<Rightarrow> 'v) \<Rightarrow> ('k, 'v) hash_map \<Rightarrow> ('k, 'v) hash_map" where
  "hm_entry k d f m = hm_insert k (f (case hm_get m k of None \<Rightarrow> d | Some v \<Rightarrow> v)) m"

definition hm_extend :: "('k, 'v) hash_map \<Rightarrow> ('k \<times> 'v) list \<Rightarrow> ('k, 'v) hash_map" where
  "hm_extend m kvs = fold (\<lambda>(k, v). hm_insert k v) kvs m"

definition hm_ok :: "('k, 'v) hash_map \<Rightarrow> bool" where
  "hm_ok m \<longleftrightarrow> distinct (map fst m)"

definition hs_insert :: "'a \<Rightarrow> 'a hash_set \<Rightarrow> 'a hash_set" where
  "hs_insert x xs = (if x \<in> set xs then xs else xs @ [x])"

definition hs_extend :: "'a hash_set \<Rightarrow> 'a list \<Rightarrow> 'a hash_set" where
  "hs_extend xs ys = fold hs_insert ys xs"

lemma hm_get_simps [simp, hash_simps]:
  "hm_get [] k = None"
  "hm_get (hm_insert k v m) k' = (if k' = k then Some v else hm_get m k')"
  by (simp_all add: hm_get_def hm_insert_def update_conv')

lemma hm_get_Cons [simp]: "hm_get ((k, v) # m) k' = (if k' = k then Some v else hm_get m k')"
  by (simp add: hm_get_def)

lemma hm_get_entry [simp, hash_simps]:
  "hm_get (hm_entry k d f m) k' =
     (if k' = k then Some (f (case hm_get m k of None \<Rightarrow> d | Some v \<Rightarrow> v)) else hm_get m k')"
  by (simp add: hm_entry_def)

lemma hm_ok_simps [simp]:
  "hm_ok []"
  "hm_ok ((k, v) # m) \<longleftrightarrow> k \<notin> fst ` set m \<and> hm_ok m"
  by (auto simp: hm_ok_def)

lemma hm_ok_insert [simp]: "hm_ok m \<Longrightarrow> hm_ok (hm_insert k v m)"
  by (simp add: hm_ok_def hm_insert_def distinct_update)

lemma hm_ok_entry [simp]: "hm_ok m \<Longrightarrow> hm_ok (hm_entry k d f m)"
  by (simp add: hm_entry_def)

lemma hm_ok_extend [simp]: "hm_ok m \<Longrightarrow> hm_ok (hm_extend m kvs)"
  unfolding hm_extend_def by (induction kvs arbitrary: m) auto

lemma hm_get_extend [simp, hash_simps]:
  "hm_ok kvs \<Longrightarrow> hm_get (hm_extend m kvs) k =
     (case hm_get kvs k of None \<Rightarrow> hm_get m k | Some v \<Rightarrow> Some v)"
proof (induction kvs arbitrary: m)
  case (Cons kv kvs)
  obtain k' v where kv: "kv = (k', v)" by (cases kv)
  with Cons.prems have "hm_get kvs k' = None" and "hm_ok kvs"
    by (simp_all add: hm_get_def map_of_eq_None_iff)
  with Cons.IH [of "hm_insert k' v m"] show ?case
    by (auto simp: kv hm_extend_def split: option.splits)
qed (simp add: hm_extend_def)

lemma set_hm_keys: "set (hm_keys m) = {k. hm_get m k \<noteq> None}"
  by (force simp: hm_keys_def hm_get_def map_of_eq_None_iff)

lemma set_hm_keys_insert [simp]: "set (hm_keys (hm_insert k v m)) = insert k (set (hm_keys m))"
  by (auto simp: set_hm_keys)

lemma set_hm_keys_entry [simp]: "set (hm_keys (hm_entry k d f m)) = insert k (set (hm_keys m))"
  by (simp add: hm_entry_def)

lemma hm_get_in: "hm_ok m \<Longrightarrow> (k, v) \<in> set m \<longleftrightarrow> hm_get m k = Some v"
  by (auto simp: hm_ok_def hm_get_def dest: map_of_SomeD)

lemma map_upd_same_value: "m(k \<mapsto> x, k' \<mapsto> x) = m(k' \<mapsto> x, k \<mapsto> x)"
  by (simp add: fun_eq_iff)

lemma hm_get_unique: "hm_ok ((k, v) # m) \<Longrightarrow> hm_get m k = None"
  by (simp add: hm_get_def map_of_eq_None_iff)

lemma set_hs_insert [simp, hash_simps]: "set (hs_insert x xs) = insert x (set xs)"
  by (auto simp: hs_insert_def)

lemma distinct_hs_insert [simp]: "distinct xs \<Longrightarrow> distinct (hs_insert x xs)"
  by (simp add: hs_insert_def)

lemma set_hs_extend [simp, hash_simps]: "set (hs_extend xs ys) = set xs \<union> set ys"
  by (induction ys arbitrary: xs) (auto simp: hs_extend_def)

lemma distinct_hs_extend [simp]: "distinct xs \<Longrightarrow> distinct (hs_extend xs ys)"
  by (induction ys arbitrary: xs) (auto simp: hs_extend_def)

section \<open>Big-endian bytes of 256-bit integers\<close>

primrec be_digits :: "nat \<Rightarrow> nat \<Rightarrow> nat list" where
  "be_digits 0 n = []"
| "be_digits (Suc k) n = be_digits k (n div 256) @ [n mod 256]"

definition to_be_bytes :: "u256 \<Rightarrow> bytes" where
  "to_be_bytes v = map of_nat (be_digits 32 (unat v))"

definition from_be_bytes :: "bytes \<Rightarrow> u256" where
  "from_be_bytes bs = of_nat (foldl (\<lambda>a b. a * 256 + unat b) 0 bs)"

lemma length_be_digits [simp]: "length (be_digits k n) = k"
  by (induction k arbitrary: n) simp_all

lemma be_digits_bound: "d \<in> set (be_digits k n) \<Longrightarrow> d < 256"
  by (induction k arbitrary: n) auto

lemma foldl_be_digits:
  "foldl (\<lambda>a b. a * 256 + b) 0 (be_digits k n) = n mod 256 ^ k"
proof (induction k arbitrary: n)
  case 0
  show ?case by simp
next
  case (Suc k)
  have "n mod (256 * 256 ^ k) = 256 * (n div 256 mod 256 ^ k) + n mod 256"
    by (rule mod_mult2_eq)
  with Suc show ?case by simp
qed

lemma from_to_be_bytes [simp]: "from_be_bytes (to_be_bytes v) = v"
proof -
  have "foldl (\<lambda>a b. a * 256 + unat b) 0 (map (of_nat :: nat \<Rightarrow> u8) ds)
      = foldl (\<lambda>a b. a * 256 + b) 0 ds" if "\<forall>d \<in> set ds. d < 256" for ds
    using that by (induction ds rule: rev_induct) (auto simp: unat_of_nat)
  then have "from_be_bytes (to_be_bytes v) = of_nat (unat v mod 256 ^ 32)"
    by (simp add: from_be_bytes_def to_be_bytes_def foldl_be_digits be_digits_bound del: be_digits.simps)
  moreover have "unat v < 256 ^ 32"
    using unsigned_less [of v] by simp
  ultimately show ?thesis by simp
qed

lemma length_to_be_bytes [simp]: "length (to_be_bytes v) = 32"
  by (simp add: to_be_bytes_def del: be_digits.simps)

section \<open>Folding an update over a hash map\<close>

locale commuting_updates =
  fixes upd :: "'k \<times> 'v \<Rightarrow> 's \<Rightarrow> 's"
    and compatible :: "'v \<Rightarrow> 'v \<Rightarrow> bool"
  assumes upd_commute: "k \<noteq> k' \<Longrightarrow> compatible v v' \<Longrightarrow>
    upd (k, v) (upd (k', v') s) = upd (k', v') (upd (k, v) s)"
begin

lemma fold_order_irrelevant:
  assumes ok: "hm_ok xs" and same: "mset xs = mset ys"
    and comp: "\<And>x y. x \<in> set xs \<Longrightarrow> y \<in> set xs \<Longrightarrow> compatible (snd x) (snd y)"
  shows "fold upd xs s = fold upd ys s"
proof -
  have "upd x \<circ> upd y = upd y \<circ> upd x" if "x \<in> set xs" "y \<in> set xs" for x y
  proof (cases "x = y")
    case False
    with ok that have "fst x \<noteq> fst y"
      by (auto simp: hm_ok_def distinct_map dest: inj_onD)
    with comp [OF that] show ?thesis
      using upd_commute [of "fst x" "fst y" "snd x" "snd y"] by (auto simp: fun_eq_iff)
  qed simp
  then have "fold upd xs = fold upd ys"
    using same by (rule fold_multiset_equiv)
  then show ?thesis by simp
qed

end

end
