(* ===== verification/Primitives.thy ===== *)
theory Primitives
  imports Prelude
begin

text \<open>
  The data of \<^verbatim>\<open>src/primitives.rs\<close> and of the EVM types it re-exports.
  The re-exported types (\<^verbatim>\<open>AccountInfo\<close>, \<^verbatim>\<open>Account\<close>, \<^verbatim>\<open>JournaledState\<close>, \<^verbatim>\<open>ExecutionResult\<close>, ...)
  are records and datatypes with the public fields the crate reads or writes; the variants of
  \<^verbatim>\<open>JournalEntry\<close> that the crate ignores are one constructor.
  The crate's own types are the assertion contract, the validation result and its accessors and
  the block changes with \<^verbatim>\<open>merge_state\<close>.  \<^verbatim>\<open>DatabaseRef\<close>, the read interface of every
  database layer, is the record of its four methods (a trait object).
\<close>

section \<open>EVM data\<close>

type_synonym bytecode = bytes

record account_info =
  info_balance :: u256
  info_nonce :: u64
  info_code_hash :: b256
  info_code :: "bytecode option"

record account_status =
  created :: bool
  self_destructed :: bool
  touched :: bool

record evm_storage_slot =
  original_value :: u256
  present_value :: u256
  is_cold :: bool

type_synonym evm_storage = "(u256, evm_storage_slot) hash_map"

record account =
  acc_info :: account_info
  acc_storage :: evm_storage
  acc_status :: account_status

type_synonym evm_state = "(address, account) hash_map"

record evm_log =
  log_address :: address
  log_topics :: "b256 list"
  log_data :: bytes

datatype journal_entry =
    BalanceTransfer address address u256
  | StorageChanged address u256 u256
  | OtherEntry

record journaled_state =
  js_state :: evm_state
  js_journal :: "journal_entry list list"
  js_depth :: nat
  js_logs :: "evm_log list"

datatype evm_execution_result =
    EvmSuccess u64 "evm_log list" bytes
  | EvmRevert u64 bytes
  | EvmHalt u64

record result_and_state =
  ras_result :: evm_execution_result
  ras_state :: evm_state

definition account_status_loaded :: account_status where
  "account_status_loaded = \<lparr>created = False, self_destructed = False, touched = False\<rparr>"

definition account_status_touched :: account_status where
  "account_status_touched = account_status_loaded\<lparr>touched := True\<rparr>"

definition is_touched :: "account \<Rightarrow> bool" where
  "is_touched a = touched (acc_status a)"

definition is_selfdestructed :: "account \<Rightarrow> bool" where
  "is_selfdestructed a = self_destructed (acc_status a)"

primrec er_is_success :: "evm_execution_result \<Rightarrow> bool" where
  "er_is_success (EvmSuccess g ls out) = True"
| "er_is_success (EvmRevert g out) = False"
| "er_is_success (EvmHalt g) = False"

primrec er_gas_used :: "evm_execution_result \<Rightarrow> u64" where
  "er_gas_used (EvmSuccess g ls out) = g"
| "er_gas_used (EvmRevert g out) = g"
| "er_gas_used (EvmHalt g) = g"

primrec er_logs :: "evm_execution_result \<Rightarrow> evm_log list" where
  "er_logs (EvmSuccess g ls out) = ls"
| "er_logs (EvmRevert g out) = []"
| "er_logs (EvmHalt g) = []"

text \<open>The values of a storage map as the database layers keep them: the present value of each slot.\<close>

definition present_values :: "evm_storage \<Rightarrow> (u256 \<rightharpoonup> u256)" where
  "present_values st = map_option present_value \<circ> hm_get st"

section \<open>The read interface of a database\<close>

record 'e db_ref =
  basic_ref :: "address \<Rightarrow> ('e, account_info option) result"
  storage_ref :: "address \<Rightarrow> u256 \<Rightarrow> ('e, u256) result"
  code_by_hash_ref :: "b256 \<Rightarrow> ('e, bytecode) result"
  block_hash_ref :: "u64 \<Rightarrow> ('e, b256) result"

text \<open>\<^verbatim>\<open>Database\<close>, the interface whose reads may change the database, as state-passing functions.\<close>

record ('d, 'e) database_ops =
  db_basic :: "'d \<Rightarrow> address \<Rightarrow> ('e, account_info option) result \<times> 'd"
  db_code_by_hash :: "'d \<Rightarrow> b256 \<Rightarrow> ('e, bytecode) result \<times> 'd"
  db_storage :: "'d \<Rightarrow> address \<Rightarrow> u256 \<Rightarrow> ('e, u256) result \<times> 'd"
  db_block_hash :: "'d \<Rightarrow> u64 \<Rightarrow> ('e, b256) result \<times> 'd"

text \<open>What a mutable database answers now.\<close>

definition database_view :: "('d, 'e) database_ops \<Rightarrow> 'd \<Rightarrow> 'e db_ref" where
  "database_view D d = \<lparr>basic_ref = \<lambda>a. fst (db_basic D d a),
     storage_ref = \<lambda>a slot. fst (db_storage D d a slot),
     code_by_hash_ref = \<lambda>h. fst (db_code_by_hash D d h),
     block_hash_ref = \<lambda>n. fst (db_block_hash D d n)\<rparr>"

text \<open>The errors of the crate's databases: \<^verbatim>\<open>NotFoundError\<close> of \<^verbatim>\<open>src/db/error.rs\<close>, and the panic of an
  \<^verbatim>\<open>unwrap\<close> of nothing.\<close>

datatype overlay_error = NotFoundError | Panic

section \<open>The crate's own data\<close>

record assertion_contract =
  ac_id :: b256
  ac_deployed_code :: bytecode
  ac_code_hash :: b256
  ac_storage :: evm_storage
  ac_account_status :: account_status

record assertion_fn_id =
  fn_id_selector :: fn_selector
  fn_id_contract_id :: b256

datatype assertion_function_execution_result =
    AssertionContractDeployFailure evm_execution_result
  | AssertionExecutionResult evm_execution_result

record assertion_function_result =
  afr_id :: assertion_fn_id
  afr_result :: assertion_function_execution_result

record assertion_contract_execution =
  assertion_fns_results :: "assertion_function_result list"
  total_assertion_gas :: u64
  total_assertion_funcs_ran :: u64

record tx_validation_result =
  transaction_valid :: bool
  result_and_state_of :: result_and_state
  assertions_executions :: "assertion_contract_execution list"

record update_block =
  ub_block_number :: u64
  ub_block_hash :: b256
  ub_parent_hash :: b256

record block_changes =
  bc_block_num :: u64
  bc_block_hash :: b256
  bc_state_changes :: evm_state

definition tx_validation_result_new ::
  "bool \<Rightarrow> result_and_state \<Rightarrow> assertion_contract_execution list \<Rightarrow> tx_validation_result" where
  "tx_validation_result_new valid ras execs =
     \<lparr>transaction_valid = valid, result_and_state_of = ras, assertions_executions = execs\<rparr>"

definition is_valid :: "tx_validation_result \<Rightarrow> bool" where
  "is_valid r = transaction_valid r"

definition total_assertions_gas :: "tx_validation_result \<Rightarrow> u64" where
  "total_assertions_gas r = sum_list (map total_assertion_gas (assertions_executions r))"

definition tx_total_assertion_funcs_ran :: "tx_validation_result \<Rightarrow> u64" where
  "tx_total_assertion_funcs_ran r =
     sum_list (map total_assertion_funcs_ran (assertions_executions r))"

definition afr_is_success :: "assertion_function_result \<Rightarrow> bool" where
  "afr_is_success r = (case afr_result r of
       AssertionExecutionResult res \<Rightarrow> er_is_success res
     | _ \<Rightarrow> False)"

definition as_result :: "assertion_function_result \<Rightarrow> evm_execution_result" where
  "as_result r = (case afr_result r of
       AssertionContractDeployFailure res \<Rightarrow> res
     | AssertionExecutionResult res \<Rightarrow> res)"

definition block_changes_new :: "u64 \<Rightarrow> b256 \<Rightarrow> block_changes" where
  "block_changes_new num h = \<lparr>bc_block_num = num, bc_block_hash = h, bc_state_changes = []\<rparr>"

definition merge_account :: "address \<times> account \<Rightarrow> evm_state \<Rightarrow> evm_state" where
  "merge_account = (\<lambda>(key, value) st. case hm_get st key of
       Some existing \<Rightarrow> hm_insert key
         (existing\<lparr>acc_info := acc_info value, acc_status := acc_status value,
           acc_storage := hm_extend (acc_storage existing) (acc_storage value)\<rparr>) st
     | None \<Rightarrow> hm_insert key value st)"

definition merge_state :: "block_changes \<Rightarrow> evm_state \<Rightarrow> block_changes" where
  "merge_state bc es = bc\<lparr>bc_state_changes := fold merge_account es (bc_state_changes bc)\<rparr>"

text \<open>What one merge step leaves at an address.\<close>

definition merged :: "account option \<Rightarrow> account \<Rightarrow> account" where
  "merged old new = (case old of
       None \<Rightarrow> new
     | Some e \<Rightarrow> new\<lparr>acc_storage := hm_extend (acc_storage e) (acc_storage new)\<rparr>)"

section \<open>Lemmas\<close>

lemma present_values_get [simp]:
  "present_values st s = map_option present_value (hm_get st s)"
  by (simp add: present_values_def)

lemma present_values_empty [simp]: "present_values [] = Map.empty"
  by (simp add: present_values_def fun_eq_iff)

lemma status_simps [simp]:
  "touched account_status_touched" "\<not> self_destructed account_status_touched"
  by (simp_all add: account_status_touched_def account_status_loaded_def)

lemma merge_account_get:
  "hm_get (merge_account (k, v) st) a =
     (if a = k then Some (merged (hm_get st k) v) else hm_get st a)"
  by (auto simp: merge_account_def merged_def split: option.splits)

lemma merge_account_fold_get:
  "hm_ok es \<Longrightarrow> hm_get (fold merge_account es st) a =
     (case hm_get es a of None \<Rightarrow> hm_get st a | Some v \<Rightarrow> Some (merged (hm_get st a) v))"
proof (induction es arbitrary: st)
  case Nil
  show ?case by simp
next
  case (Cons e es)
  obtain k v where e: "e = (k, v)" by (cases e)
  from Cons.prems e have notin: "hm_get es k = None" and ok: "hm_ok es"
    by (simp_all add: hm_get_def map_of_eq_None_iff)
  show ?case
    using Cons.IH [OF ok, of "merge_account (k, v) st"] notin
    by (auto simp: e merge_account_get split: option.splits)
qed

lemma merge_account_ok: "hm_ok st \<Longrightarrow> hm_ok (fold merge_account es st)"
proof (induction es arbitrary: st)
  case (Cons e es)
  have "hm_ok (merge_account e st)"
    using Cons.prems by (cases e) (simp add: merge_account_def split: option.splits)
  then show ?case by (simp add: Cons.IH)
qed simp

lemma sum_list_u64_no_wrap:
  fixes xs :: "u64 list"
  assumes "sum_list (map unat xs) < 2 ^ 64"
  shows "unat (sum_list xs) = sum_list (map unat xs)"
  using assms
proof (induction xs)
  case (Cons x xs)
  then have "unat (sum_list xs) = sum_list (map unat xs)" by simp
  with Cons.prems show ?case by (simp add: unat_word_ariths)
qed simp

text \<open>Merging a transaction's state into the block changes keeps, at every address, the
  latest account info and status, and the union of the storage with the later values winning;
  addresses the new state does not mention are unchanged.\<close>

lemma merge_state_spec:
  assumes "hm_ok es"
  shows "hm_get (bc_state_changes (merge_state bc es)) a =
    (case (hm_get es a, hm_get (bc_state_changes bc) a) of
       (None, old) \<Rightarrow> old
     | (Some new, None) \<Rightarrow> Some new
     | (Some new, Some old) \<Rightarrow>
         Some \<lparr>acc_info = acc_info new,
               acc_storage = hm_extend (acc_storage old) (acc_storage new),
               acc_status = acc_status new\<rparr>)"
  using merge_account_fold_get [OF assms, of "bc_state_changes bc" a]
  by (auto simp: merge_state_def merged_def split: option.splits)

end
