(* ===== verification/ForkDb.thy ===== *)
theory ForkDb
  imports Primitives
begin

text \<open>
  \<^verbatim>\<open>src/db/fork_db.rs\<close>: a layer of mutations over a read-only database.  The state is
  the record \<open>fork_db\<close>; reads fall through to \<open>inner_db\<close> unless the layer holds a
  value or the account's storage is cut off from it (\<open>dont_read_from_inner_db\<close>, set when the
  account self-destructs); \<open>fork_commit\<close> folds a transaction's state changes into the layer.
  The lemmas give what every read returns after a commit, that the iteration order of the change
  set is irrelevant, and when committing two change sets is committing their merge.
  \<open>ref_commit\<close> is the abstract specification of a commit, on the answers of a database alone; the
  locale \<open>committing_db\<close> is the contract of a database that commits that way, which the fork meets.
\<close>

section \<open>State\<close>

record fork_storage_map =
  fsm_map :: "u256 \<rightharpoonup> u256"
  dont_read_from_inner_db :: bool

record 'e fork_db =
  fork_storage :: "address \<rightharpoonup> fork_storage_map"
  fork_basic :: "address \<rightharpoonup> account_info"
  fork_code_by_hash :: "b256 \<rightharpoonup> bytecode"
  inner_db :: "'e db_ref"

definition fork_storage_map_default :: fork_storage_map where
  "fork_storage_map_default = \<lparr>fsm_map = Map.empty, dont_read_from_inner_db = False\<rparr>"

section \<open>Reads\<close>

definition fork_basic_ref :: "'e fork_db \<Rightarrow> address \<Rightarrow> ('e, account_info option) result" where
  "fork_basic_ref db a = (case fork_basic db a of
       Some b \<Rightarrow> Inr (Some b)
     | None \<Rightarrow> basic_ref (inner_db db) a)"

definition fork_storage_ref :: "'e fork_db \<Rightarrow> address \<Rightarrow> u256 \<Rightarrow> ('e, u256) result" where
  "fork_storage_ref db a slot = (case fork_storage db a of
       Some s \<Rightarrow>
         if dont_read_from_inner_db s
         then Inr (case fsm_map s slot of Some v \<Rightarrow> v | None \<Rightarrow> 0)
         else (case fsm_map s slot of
             Some v \<Rightarrow> Inr v
           | None \<Rightarrow> storage_ref (inner_db db) a slot)
     | None \<Rightarrow> storage_ref (inner_db db) a slot)"

definition fork_code_by_hash_ref :: "'e fork_db \<Rightarrow> b256 \<Rightarrow> ('e, bytecode) result" where
  "fork_code_by_hash_ref db h = (case fork_code_by_hash db h of
       Some c \<Rightarrow> Inr c
     | None \<Rightarrow> code_by_hash_ref (inner_db db) h)"

definition fork_block_hash_ref :: "'e fork_db \<Rightarrow> u64 \<Rightarrow> ('e, b256) result" where
  "fork_block_hash_ref db n = block_hash_ref (inner_db db) n"

definition fork_ref :: "'e fork_db \<Rightarrow> 'e db_ref" where
  "fork_ref db = \<lparr>basic_ref = fork_basic_ref db, storage_ref = fork_storage_ref db,
     code_by_hash_ref = fork_code_by_hash_ref db, block_hash_ref = fork_block_hash_ref db\<rparr>"

section \<open>Updates\<close>

definition fork_commit_account :: "address \<times> account \<Rightarrow> 'e fork_db \<Rightarrow> 'e fork_db" where
  "fork_commit_account = (\<lambda>(a, acct) db.
     if \<not> is_touched acct then db
     else if is_selfdestructed acct then
       db\<lparr>fork_basic := (fork_basic db)(a \<mapsto> acc_info acct),
          fork_storage := (fork_storage db)(a \<mapsto>
            \<lparr>fsm_map = Map.empty, dont_read_from_inner_db = True\<rparr>)\<rparr>
     else
       db\<lparr>fork_code_by_hash := (case info_code (acc_info acct) of
              Some c \<Rightarrow> (fork_code_by_hash db)(info_code_hash (acc_info acct) \<mapsto> c)
            | None \<Rightarrow> fork_code_by_hash db),
          fork_basic := (fork_basic db)(a \<mapsto> acc_info acct),
          fork_storage := (fork_storage db)(a \<mapsto> (case fork_storage db a of
              Some s \<Rightarrow> s\<lparr>fsm_map := fsm_map s ++ present_values (acc_storage acct)\<rparr>
            | None \<Rightarrow> \<lparr>fsm_map = present_values (acc_storage acct),
                        dont_read_from_inner_db = False\<rparr>))\<rparr>)"

definition fork_commit :: "'e fork_db \<Rightarrow> evm_state \<Rightarrow> 'e fork_db" where
  "fork_commit db changes = fold fork_commit_account changes db"

definition fork_new :: "'e db_ref \<Rightarrow> 'e fork_db" where
  "fork_new inner = \<lparr>fork_storage = Map.empty, fork_basic = Map.empty,
     fork_code_by_hash = Map.empty, inner_db = inner\<rparr>"

definition replace_inner_db :: "'e fork_db \<Rightarrow> 'e db_ref \<Rightarrow> 'e db_ref \<times> 'e fork_db" where
  "replace_inner_db db new_db = (inner_db db, db\<lparr>inner_db := new_db\<rparr>)"

definition insert_account_info :: "'e fork_db \<Rightarrow> address \<Rightarrow> account_info \<Rightarrow> 'e fork_db" where
  "insert_account_info db a i = db\<lparr>fork_basic := (fork_basic db)(a \<mapsto> i)\<rparr>"

text \<open>The executor and the inspector cut an account off with
  \<^verbatim>\<open>storage.entry(a).or_default().dont_read_from_inner_db = true\<close>.\<close>

definition fork_dont_read :: "address \<Rightarrow> 'e fork_db \<Rightarrow> 'e fork_db" where
  "fork_dont_read a db = db\<lparr>fork_storage := (fork_storage db)(a \<mapsto>
     (case fork_storage db a of None \<Rightarrow> fork_storage_map_default | Some s \<Rightarrow> s)
       \<lparr>dont_read_from_inner_db := True\<rparr>)\<rparr>"

text \<open>What a committed account says of a read that returned \<open>old\<close> before it.\<close>

definition committed_storage :: "account \<Rightarrow> u256 \<Rightarrow> ('e, u256) result \<Rightarrow> ('e, u256) result" where
  "committed_storage acct slot old =
     (if \<not> is_touched acct then old
      else if is_selfdestructed acct then Inr 0
      else case hm_get (acc_storage acct) slot of Some v \<Rightarrow> Inr (present_value v) | None \<Rightarrow> old)"

text \<open>Two accounts whose code hashes agree carry the same code.\<close>

definition same_code :: "account \<Rightarrow> account \<Rightarrow> bool" where
  "same_code x y \<longleftrightarrow> (info_code (acc_info x) \<noteq> None \<longrightarrow> info_code (acc_info y) \<noteq> None \<longrightarrow>
     info_code_hash (acc_info x) = info_code_hash (acc_info y) \<longrightarrow>
     info_code (acc_info x) = info_code (acc_info y))"

text \<open>What a commit does to the answers of a database, whatever holds them.\<close>

definition ref_commit_account :: "address \<times> account \<Rightarrow> 'e db_ref \<Rightarrow> 'e db_ref" where
  "ref_commit_account = (\<lambda>(a, acct) r. if \<not> is_touched acct then r else r\<lparr>
     basic_ref := (basic_ref r)(a := Inr (Some (acc_info acct))),
     storage_ref := (storage_ref r)(a := \<lambda>slot. committed_storage acct slot (storage_ref r a slot)),
     code_by_hash_ref := (case info_code (acc_info acct) of
         Some c \<Rightarrow> if is_selfdestructed acct then code_by_hash_ref r
                  else (code_by_hash_ref r)(info_code_hash (acc_info acct) := Inr c)
       | None \<Rightarrow> code_by_hash_ref r)\<rparr>)"

definition ref_commit :: "'e db_ref \<Rightarrow> evm_state \<Rightarrow> 'e db_ref" where
  "ref_commit r changes = fold ref_commit_account changes r"

text \<open>A database whose commits change its answers that way, one account at a time.\<close>

locale committing_db =
  fixes step :: "address \<times> account \<Rightarrow> 's \<Rightarrow> 's" and view :: "'s \<Rightarrow> 'e db_ref"
  assumes step_view: "view (step x s) = ref_commit_account x (view s)"
begin

lemma commit_view: "view (fold step changes s) = ref_commit (view s) changes"
  unfolding ref_commit_def by (induction changes arbitrary: s) (simp_all add: step_view)

lemma commits_view:
  "view (fold (\<lambda>changes s. fold step changes s) css s) = fold (\<lambda>changes r. ref_commit r changes) css (view s)"
  by (induction css arbitrary: s) (simp_all add: commit_view)

end

section \<open>Lemmas\<close>

lemma fork_ref_simps [simp, db_simps]:
  "basic_ref (fork_ref db) = fork_basic_ref db"
  "storage_ref (fork_ref db) = fork_storage_ref db"
  "code_by_hash_ref (fork_ref db) = fork_code_by_hash_ref db"
  "block_hash_ref (fork_ref db) = fork_block_hash_ref db"
  by (simp_all add: fork_ref_def)

lemma fork_new_reads [simp, db_simps]:
  "fork_basic_ref (fork_new v) = basic_ref v"
  "fork_storage_ref (fork_new v) = storage_ref v"
  "fork_code_by_hash_ref (fork_new v) = code_by_hash_ref v"
  "fork_block_hash_ref (fork_new v) = block_hash_ref v"
  by (simp_all add: fork_new_def fork_basic_ref_def fork_storage_ref_def
      fork_code_by_hash_ref_def fork_block_hash_ref_def fun_eq_iff)

lemma fork_new_ref [simp, db_simps]: "fork_ref (fork_new v) = v"
  by (simp add: fork_ref_def)

lemma fork_commit_account_basic:
  "fork_basic_ref (fork_commit_account (k, acct) db) a =
     (if a = k \<and> is_touched acct then Inr (Some (acc_info acct)) else fork_basic_ref db a)"
  by (simp add: fork_commit_account_def fork_basic_ref_def split: option.splits)

lemma fork_commit_account_storage:
  "fork_storage_ref (fork_commit_account (k, acct) db) a slot =
     (if a = k then committed_storage acct slot (fork_storage_ref db a slot)
      else fork_storage_ref db a slot)"
  by (auto simp: fork_commit_account_def fork_storage_ref_def committed_storage_def map_add_def
      split: option.splits)

lemma fork_commit_account_code:
  "fork_code_by_hash_ref (fork_commit_account (k, acct) db) h =
     (if is_touched acct \<and> \<not> is_selfdestructed acct \<and> info_code (acc_info acct) \<noteq> None \<and>
         h = info_code_hash (acc_info acct)
      then Inr (the (info_code (acc_info acct))) else fork_code_by_hash_ref db h)"
  by (auto simp: fork_commit_account_def fork_code_by_hash_ref_def split: option.splits)

lemma fork_commit_account_inner [simp]:
  "inner_db (fork_commit_account x db) = inner_db db"
  by (cases x) (simp add: fork_commit_account_def)

interpretation fork_commits: committing_db fork_commit_account fork_ref
proof
  fix x :: "address \<times> account" and db :: "'e fork_db"
  obtain k acct where x: "x = (k, acct)" by (cases x)
  show "fork_ref (fork_commit_account x db) = ref_commit_account x (fork_ref db)"
    by (auto simp: x ref_commit_account_def fork_ref_def fun_eq_iff fork_commit_account_basic
        fork_commit_account_storage fork_commit_account_code fork_block_hash_ref_def
        committed_storage_def split: option.splits)
qed

lemma fork_commit_inner [simp, db_simps]: "inner_db (fork_commit db changes) = inner_db db"
  unfolding fork_commit_def by (induction changes arbitrary: db) simp_all

lemma fork_commit_Cons: "fork_commit db (x # xs) = fork_commit (fork_commit_account x db) xs"
  by (simp add: fork_commit_def)

lemma fork_commit_untouched_basic:
  "hm_get changes a = None \<Longrightarrow> fork_basic_ref (fork_commit db changes) a = fork_basic_ref db a"
proof (induction changes arbitrary: db)
  case (Cons x xs)
  then show ?case
    by (cases x) (auto simp: fork_commit_Cons fork_commit_account_basic split: if_splits)
qed (simp add: fork_commit_def)

lemma fork_commit_untouched_storage:
  "hm_get changes a = None \<Longrightarrow>
     fork_storage_ref (fork_commit db changes) a slot = fork_storage_ref db a slot"
proof (induction changes arbitrary: db)
  case (Cons x xs)
  then show ?case
    by (cases x) (auto simp: fork_commit_Cons fork_commit_account_storage split: if_splits)
qed (simp add: fork_commit_def)

lemma fork_commit_storage_gen:
  "hm_ok changes \<Longrightarrow> fork_storage_ref (fork_commit db changes) a slot =
     (case hm_get changes a of
        None \<Rightarrow> fork_storage_ref db a slot
      | Some acct \<Rightarrow> committed_storage acct slot (fork_storage_ref db a slot))"
proof (induction changes arbitrary: db)
  case (Cons x xs)
  obtain k acct where x: "x = (k, acct)" by (cases x)
  with Cons.prems have "hm_get xs k = None" and "hm_ok xs"
    by (simp_all add: hm_get_def map_of_eq_None_iff)
  then show ?case
    using Cons.IH [of "fork_commit_account x db"] fork_commit_untouched_storage [of xs k]
    by (auto simp: x fork_commit_Cons fork_commit_account_storage split: option.splits)
qed (simp add: fork_commit_def)

lemma fork_commit_basic_gen:
  "hm_ok changes \<Longrightarrow> fork_basic_ref (fork_commit db changes) a =
     (case hm_get changes a of
        None \<Rightarrow> fork_basic_ref db a
      | Some acct \<Rightarrow> if is_touched acct then Inr (Some (acc_info acct)) else fork_basic_ref db a)"
proof (induction changes arbitrary: db)
  case (Cons x xs)
  obtain k acct where x: "x = (k, acct)" by (cases x)
  with Cons.prems have "hm_get xs k = None" and "hm_ok xs"
    by (simp_all add: hm_get_def map_of_eq_None_iff)
  then show ?case
    using Cons.IH [of "fork_commit_account x db"] fork_commit_untouched_basic [of xs k]
    by (auto simp: x fork_commit_Cons fork_commit_account_basic split: option.splits)
qed (simp add: fork_commit_def)

interpretation fork_commit_fold: commuting_updates fork_commit_account same_code
proof
  fix k k' :: address and v v' :: account and s :: "'e fork_db"
  assume "k \<noteq> k'" "same_code v v'"
  then show "fork_commit_account (k, v) (fork_commit_account (k', v') s) =
      fork_commit_account (k', v') (fork_commit_account (k, v) s)"
    by (auto simp: fork_commit_account_def same_code_def fun_upd_twist map_upd_same_value
        split: option.splits)
qed

lemma fork_dont_read_reads [simp, db_simps]:
  "fork_basic_ref (fork_dont_read a db) = fork_basic_ref db"
  "fork_code_by_hash_ref (fork_dont_read a db) = fork_code_by_hash_ref db"
  "inner_db (fork_dont_read a db) = inner_db db"
  by (simp_all add: fork_dont_read_def fork_basic_ref_def fork_code_by_hash_ref_def fun_eq_iff
      split: option.splits)

lemma fork_dont_read_storage [db_simps]:
  "fork_storage_ref (fork_dont_read a db) b slot =
     (if b = a then Inr (case fork_storage db a of
          None \<Rightarrow> 0
        | Some s \<Rightarrow> (case fsm_map s slot of Some v \<Rightarrow> v | None \<Rightarrow> 0))
      else fork_storage_ref db b slot)"
  by (simp add: fork_dont_read_def fork_storage_ref_def fork_storage_map_default_def
      split: option.splits)

text \<open>Code: a live account carries the code of its hash, and the last commit decides.\<close>

definition carries :: "account \<Rightarrow> b256 \<Rightarrow> bool" where
  "carries acct h \<longleftrightarrow> info_code (acc_info acct) \<noteq> None \<and> info_code_hash (acc_info acct) = h"

lemma fork_commit_code:
  assumes "\<And>x. x \<in> set changes \<Longrightarrow> is_touched (snd x) \<and> \<not> is_selfdestructed (snd x)"
  shows "fork_code_by_hash_ref (fork_commit db changes) h = fold
    (\<lambda>x r. if carries (snd x) h then Inr (the (info_code (acc_info (snd x)))) else r) changes (fork_code_by_hash_ref db h)"
  using assms
proof (induction changes arbitrary: db)
  case (Cons x xs)
  then have "is_touched (snd x) \<and> \<not> is_selfdestructed (snd x)" by simp
  then have "fork_code_by_hash_ref (fork_commit_account x db) h =
      (if carries (snd x) h then Inr (the (info_code (acc_info (snd x)))) else fork_code_by_hash_ref db h)"
    by (cases x) (auto simp: fork_commit_account_code carries_def)
  with Cons show ?case by (simp add: fork_commit_Cons)
qed (simp add: fork_commit_def)

lemma fold_code:
  assumes "\<And>x. x \<in> set changes \<Longrightarrow> carries (snd x) h \<Longrightarrow> the (info_code (acc_info (snd x))) = c"
  shows "fold (\<lambda>x r. if carries (snd x) h then Inr (the (info_code (acc_info (snd x)))) else r) changes r =
    (if \<exists>x \<in> set changes. carries (snd x) h then Inr c else r)"
  using assms by (induction changes arbitrary: r) auto

lemma merge_state_accounts:
  assumes "hm_ok (bc_state_changes bc)" and "hm_ok es"
  shows "(a, acct) \<in> set (bc_state_changes (merge_state bc es)) \<longleftrightarrow> (case hm_get es a of
       None \<Rightarrow> (a, acct) \<in> set (bc_state_changes bc)
     | Some new \<Rightarrow> acct = merged (hm_get (bc_state_changes bc) a) new)"
  using hm_get_in [OF merge_account_ok [OF assms(1)], where k = a and v = acct] hm_get_in [OF assms(1), where k = a and v = acct]
  by (auto simp: merge_state_def merge_account_fold_get [OF assms(2)] split: option.splits)

text \<open>Every account of the merge has the info and status of one of the two sets, and the code of a hash is kept
  unless the second set replaces it.\<close>

lemma merged_account_source:
  assumes "hm_ok (bc_state_changes bc)" and "hm_ok es" and "x \<in> set (bc_state_changes (merge_state bc es))"
  obtains y where "y \<in> set (bc_state_changes bc) \<union> set es" and "acc_info (snd y) = acc_info (snd x)"
    and "acc_status (snd y) = acc_status (snd x)"
proof (cases "hm_get es (fst x)")
  case None
  with assms(3) merge_state_accounts [OF assms(1,2), of "fst x" "snd x"] show thesis by (intro that [of x]) auto
next
  case (Some new)
  with assms(3) merge_state_accounts [OF assms(1,2), of "fst x" "snd x"] hm_get_in [OF assms(2), where k = "fst x"]
  have "(fst x, new) \<in> set es" "snd x = merged (hm_get (bc_state_changes bc) (fst x)) new" by auto
  then show thesis by (intro that [of "(fst x, new)"]) (auto simp: merged_def split: option.splits)
qed

lemma merged_account_carries:
  assumes "hm_ok (bc_state_changes bc)" and "hm_ok es" and "x \<in> set (bc_state_changes bc) \<union> set es" and "carries (snd x) h"
    and kept: "\<And>b old new. (b, old) \<in> set (bc_state_changes bc) \<Longrightarrow> (b, new) \<in> set es \<Longrightarrow> carries old h \<Longrightarrow> carries new h"
  shows "\<exists>y \<in> set (bc_state_changes (merge_state bc es)). carries (snd y) h"
proof (cases "hm_get es (fst x)")
  case None
  with assms(3,4) hm_get_in [OF assms(2), where k = "fst x" and v = "snd x"]
    merge_state_accounts [OF assms(1,2), of "fst x" "snd x"] show ?thesis by auto
next
  case (Some new)
  then have new: "(fst x, new) \<in> set es" using hm_get_in [OF assms(2)] by simp
  have "carries new h"
  proof (cases "x \<in> set es")
    case True
    with Some hm_get_in [OF assms(2), where k = "fst x" and v = "snd x"] assms(4) show ?thesis by simp
  next
    case False
    with assms(3) have "(fst x, snd x) \<in> set (bc_state_changes bc)" by simp
    from kept [OF this new assms(4)] show ?thesis .
  qed
  moreover have "(fst x, merged (hm_get (bc_state_changes bc) (fst x)) new) \<in> set (bc_state_changes (merge_state bc es))"
    using merge_state_accounts [OF assms(1,2)] Some by simp
  ultimately show ?thesis
    by (intro bexI [of _ "(fst x, merged (hm_get (bc_state_changes bc) (fst x)) new)"])
      (auto simp: merged_def carries_def split: option.splits)
qed

text \<open>Accounts of equal hash have equal code, so one code is read for the hash.\<close>

lemma same_code_unique:
  assumes "\<And>x y. x \<in> A \<Longrightarrow> y \<in> A \<Longrightarrow> same_code (snd x) (snd y)"
  obtains c where "\<And>x. x \<in> A \<Longrightarrow> carries (snd x) h \<Longrightarrow> the (info_code (acc_info (snd x))) = c"
proof (cases "\<exists>x \<in> A. carries (snd x) h")
  case True
  then obtain x where x: "x \<in> A" "carries (snd x) h" by blast
  have "the (info_code (acc_info (snd y))) = the (info_code (acc_info (snd x)))" if "y \<in> A" "carries (snd y) h" for y
    using assms [OF that(1) x(1)] that(2) x(2) by (simp add: same_code_def carries_def)
  then show thesis by (rule that)
qed (use that in blast)

lemma merge_state_code:
  assumes "hm_ok (bc_state_changes bc)" and "hm_ok es"
    and live: "\<And>a acct. (a, acct) \<in> set (bc_state_changes bc) \<union> set es \<Longrightarrow>
      is_touched acct \<and> \<not> is_selfdestructed acct \<and> hm_ok (acc_storage acct)"
    and same: "\<forall>x \<in> set (bc_state_changes bc) \<union> set es. \<forall>y \<in> set (bc_state_changes bc) \<union> set es. same_code (snd x) (snd y)"
    and kept: "\<forall>b old new. (b, old) \<in> set (bc_state_changes bc) \<and> (b, new) \<in> set es \<and> carries old h \<longrightarrow> carries new h"
  shows "fork_code_by_hash_ref (fork_commit (fork_commit db (bc_state_changes bc)) es) h =
    fork_code_by_hash_ref (fork_commit db (bc_state_changes (merge_state bc es))) h"
proof -
  let ?st = "bc_state_changes bc" and ?mg = "bc_state_changes (merge_state bc es)"
  obtain c where c: "\<And>x. x \<in> set ?st \<union> set es \<Longrightarrow> carries (snd x) h \<Longrightarrow> the (info_code (acc_info (snd x))) = c"
    using same_code_unique [of "set ?st \<union> set es"] same by blast
  have old: "is_touched (snd x) \<and> \<not> is_selfdestructed (snd x)" if "x \<in> set ?st \<union> set es" for x
    using that live [of "fst x" "snd x"] by simp
  have mg: "is_touched (snd x) \<and> \<not> is_selfdestructed (snd x)"
    "carries (snd x) h \<Longrightarrow> the (info_code (acc_info (snd x))) = c \<and> (\<exists>y \<in> set ?st \<union> set es. carries (snd y) h)"
    if x: "x \<in> set ?mg" for x
  proof -
    obtain y where y: "y \<in> set ?st \<union> set es" "acc_info (snd y) = acc_info (snd x)" "acc_status (snd y) = acc_status (snd x)"
      using merged_account_source [OF assms(1,2) x] by blast
    from old [OF y(1)] y(3) show "is_touched (snd x) \<and> \<not> is_selfdestructed (snd x)"
      by (simp add: is_touched_def is_selfdestructed_def)
    assume "carries (snd x) h"
    with y(2) have "carries (snd y) h" by (simp add: carries_def)
    with c [OF y(1) this] y(1,2) show "the (info_code (acc_info (snd x))) = c \<and> (\<exists>y \<in> set ?st \<union> set es. carries (snd y) h)"
      by auto
  qed
  have "(\<exists>x \<in> set ?mg. carries (snd x) h) \<longleftrightarrow> (\<exists>x \<in> set ?st \<union> set es. carries (snd x) h)"
    using mg(2) merged_account_carries [OF assms(1,2)] kept by blast
  moreover have "fork_code_by_hash_ref (fork_commit (fork_commit db ?st) es) h =
      (if \<exists>x \<in> set ?st \<union> set es. carries (snd x) h then Inr c else fork_code_by_hash_ref db h)"
    using old c by (subst fork_commit_code, blast, subst fork_commit_code, blast) (auto simp: fold_code [where c = c])
  moreover have "fork_code_by_hash_ref (fork_commit db ?mg) h =
      (if \<exists>x \<in> set ?mg. carries (snd x) h then Inr c else fork_code_by_hash_ref db h)"
    using mg by (subst fork_commit_code, blast) (rule fold_code, blast)
  ultimately show ?thesis by simp
qed

section \<open>Properties\<close>

text \<open>After committing a transaction's changes, a storage read returns zero for a
  self-destructed account, the present value of every slot the transaction wrote, and what it
  returned before for everything else, whatever the inner database holds.\<close>

lemma fork_commit_storage:
  assumes "hm_ok changes"
  shows "fork_storage_ref (fork_commit db changes) a slot =
    (case hm_get changes a of
       None \<Rightarrow> fork_storage_ref db a slot
     | Some acct \<Rightarrow>
         if \<not> is_touched acct then fork_storage_ref db a slot
         else if is_selfdestructed acct then Inr 0
         else (case hm_get (acc_storage acct) slot of
             Some v \<Rightarrow> Inr (present_value v)
           | None \<Rightarrow> fork_storage_ref db a slot))"
  by (simp add: fork_commit_storage_gen [OF assms] committed_storage_def split: option.splits)

text \<open>C35. The iteration order of the change set is irrelevant: two enumerations of the same
  hash map give the same fork, as long as equal code hashes mean equal code.\<close>

theorem fork_commit_order_irrelevant:
  assumes "hm_ok xs" and "mset xs = mset ys"
    and "\<And>x y. x \<in> set xs \<Longrightarrow> y \<in> set xs \<Longrightarrow> same_code (snd x) (snd y)"
  shows "fork_commit db xs = fork_commit db ys"
  unfolding fork_commit_def by (rule fork_commit_fold.fold_order_irrelevant [OF assms])

theorem fork_commit_order_irrelevant_witness:
  "fork_commit (fork_new \<lparr>basic_ref = \<lambda>_. Inr None, storage_ref = \<lambda>_ _. Inr 9,
       code_by_hash_ref = \<lambda>_. Inl (), block_hash_ref = \<lambda>_. Inl ()\<rparr>)
     [(1, \<lparr>acc_info = \<lparr>info_balance = 1, info_nonce = 0, info_code_hash = 7, info_code = Some [1]\<rparr>,
           acc_storage = [], acc_status = account_status_touched\<rparr>),
      (2, \<lparr>acc_info = \<lparr>info_balance = 2, info_nonce = 0, info_code_hash = 7, info_code = Some [1]\<rparr>,
           acc_storage = [], acc_status = account_status_touched\<rparr>)] =
   fork_commit (fork_new \<lparr>basic_ref = \<lambda>_. Inr None, storage_ref = \<lambda>_ _. Inr 9,
       code_by_hash_ref = \<lambda>_. Inl (), block_hash_ref = \<lambda>_. Inl ()\<rparr>)
     [(2, \<lparr>acc_info = \<lparr>info_balance = 2, info_nonce = 0, info_code_hash = 7, info_code = Some [1]\<rparr>,
           acc_storage = [], acc_status = account_status_touched\<rparr>),
      (1, \<lparr>acc_info = \<lparr>info_balance = 1, info_nonce = 0, info_code_hash = 7, info_code = Some [1]\<rparr>,
           acc_storage = [], acc_status = account_status_touched\<rparr>)]"
  by (rule fork_commit_order_irrelevant) (auto simp: same_code_def)

text \<open>C36. Merging two change sets (\<^verbatim>\<open>BlockChanges::merge_state\<close>) and committing the result: when every account
  of both is touched and none self-destructs, accounts, storage and block hashes read as after committing the two
  one after the other.  Code reads agree as well for every hash whose code the merge keeps, equal hashes
  meaning equal code: a hash is lost when the second set gives the account that carries its code another
  code hash or no code.\<close>

theorem fork_commit_merge_state:
  assumes "hm_ok (bc_state_changes bc)" and "hm_ok es"
    and "\<And>a acct. (a, acct) \<in> set (bc_state_changes bc) \<union> set es \<Longrightarrow>
      is_touched acct \<and> \<not> is_selfdestructed acct \<and> hm_ok (acc_storage acct)"
  shows "fork_storage_ref (fork_commit (fork_commit db (bc_state_changes bc)) es) a slot =
      fork_storage_ref (fork_commit db (bc_state_changes (merge_state bc es))) a slot \<and>
    fork_basic_ref (fork_commit (fork_commit db (bc_state_changes bc)) es) a =
      fork_basic_ref (fork_commit db (bc_state_changes (merge_state bc es))) a \<and>
    fork_block_hash_ref (fork_commit (fork_commit db (bc_state_changes bc)) es) n =
      fork_block_hash_ref (fork_commit db (bc_state_changes (merge_state bc es))) n \<and>
    ((\<forall>x \<in> set (bc_state_changes bc) \<union> set es. \<forall>y \<in> set (bc_state_changes bc) \<union> set es. same_code (snd x) (snd y)) \<and>
       (\<forall>b old new. (b, old) \<in> set (bc_state_changes bc) \<and> (b, new) \<in> set es \<and> carries old h \<longrightarrow> carries new h) \<longrightarrow>
     fork_code_by_hash_ref (fork_commit (fork_commit db (bc_state_changes bc)) es) h =
       fork_code_by_hash_ref (fork_commit db (bc_state_changes (merge_state bc es))) h)"
proof -
  let ?st = "bc_state_changes bc"
  have live: "is_touched acct \<and> \<not> is_selfdestructed acct \<and> hm_ok (acc_storage acct)"
    if "hm_get ?st a = Some acct \<or> hm_get es a = Some acct" for acct
    using assms(3) [of a acct] that hm_get_in [OF assms(1)] hm_get_in [OF assms(2)] by auto
  have ok: "hm_ok (fold merge_account es ?st)"
    using assms(1) by (rule merge_account_ok)
  have "fork_storage_ref (fork_commit (fork_commit db ?st) es) a slot =
      fork_storage_ref (fork_commit db (bc_state_changes (merge_state bc es))) a slot"
    using live by (auto simp: merge_state_def fork_commit_storage_gen [OF ok]
      fork_commit_storage_gen [OF assms(1)] fork_commit_storage_gen [OF assms(2)]
      merge_account_fold_get [OF assms(2)] merged_def committed_storage_def
      is_touched_def is_selfdestructed_def split: option.splits)
  moreover have "fork_basic_ref (fork_commit (fork_commit db ?st) es) a =
      fork_basic_ref (fork_commit db (bc_state_changes (merge_state bc es))) a"
    using live by (auto simp: merge_state_def fork_commit_basic_gen [OF ok]
      fork_commit_basic_gen [OF assms(1)] fork_commit_basic_gen [OF assms(2)]
      merge_account_fold_get [OF assms(2)] merged_def is_touched_def split: option.splits)
  moreover have "fork_block_hash_ref (fork_commit (fork_commit db ?st) es) n =
      fork_block_hash_ref (fork_commit db (bc_state_changes (merge_state bc es))) n"
    by (simp add: fork_block_hash_ref_def)
  ultimately show ?thesis using merge_state_code [OF assms(1,2), where db = db and h = h] assms(3) by blast
qed

theorem fork_commit_merge_state_witness:
  "fork_storage_ref (fork_commit (fork_commit
      (fork_new \<lparr>basic_ref = \<lambda>_. Inr None, storage_ref = \<lambda>_ _. Inr 9,
         code_by_hash_ref = \<lambda>_. Inl (), block_hash_ref = \<lambda>_. Inl ()\<rparr>)
      (bc_state_changes \<lparr>bc_block_num = 1, bc_block_hash = 0, bc_state_changes =
        [(5, \<lparr>acc_info = \<lparr>info_balance = 1, info_nonce = 0, info_code_hash = 0, info_code = None\<rparr>,
          acc_storage = [(3, \<lparr>original_value = 9, present_value = 4, is_cold = False\<rparr>)],
          acc_status = account_status_touched\<rparr>)]\<rparr>))
      [(5, \<lparr>acc_info = \<lparr>info_balance = 2, info_nonce = 0, info_code_hash = 0, info_code = None\<rparr>,
          acc_storage = [], acc_status = account_status_touched\<rparr>)]) 5 3 =
    fork_storage_ref (fork_commit
      (fork_new \<lparr>basic_ref = \<lambda>_. Inr None, storage_ref = \<lambda>_ _. Inr 9,
         code_by_hash_ref = \<lambda>_. Inl (), block_hash_ref = \<lambda>_. Inl ()\<rparr>)
      (bc_state_changes (merge_state \<lparr>bc_block_num = 1, bc_block_hash = 0, bc_state_changes =
        [(5, \<lparr>acc_info = \<lparr>info_balance = 1, info_nonce = 0, info_code_hash = 0, info_code = None\<rparr>,
          acc_storage = [(3, \<lparr>original_value = 9, present_value = 4, is_cold = False\<rparr>)],
          acc_status = account_status_touched\<rparr>)]\<rparr>
      [(5, \<lparr>acc_info = \<lparr>info_balance = 2, info_nonce = 0, info_code_hash = 0, info_code = None\<rparr>,
          acc_storage = [], acc_status = account_status_touched\<rparr>)]))) 5 3"
  by (rule fork_commit_merge_state [THEN conjunct1])
    (auto simp: is_touched_def is_selfdestructed_def)

text \<open>The code of a hash the merge does not keep: the second set replaces the account that carried it.\<close>

lemma merge_state_loses_code:
  assumes "is_touched old" and "is_touched new" and "\<not> is_selfdestructed old" and "\<not> is_selfdestructed new"
    and "carries old h" and "\<not> carries new h"
  shows "fork_code_by_hash_ref (fork_commit (fork_commit db [(a, old)]) [(a, new)]) h = Inr (the (info_code (acc_info old))) \<and>
    fork_code_by_hash_ref (fork_commit db (bc_state_changes (merge_state
      \<lparr>bc_block_num = n, bc_block_hash = b, bc_state_changes = [(a, old)]\<rparr> [(a, new)]))) h = fork_code_by_hash_ref db h"
  using assms
  by (auto simp: fork_commit_def fork_commit_account_code merge_state_def merge_account_def hm_insert_def
      is_touched_def is_selfdestructed_def carries_def)

text \<open>With a self-destruct in between the merge is not equivalent: an account that
  self-destructs after writing a slot and is touched again later reads the old slot value from
  the merged changes, and zero from the two commits.\<close>

lemma merge_state_keeps_destroyed_storage:
  assumes "is_touched dead" and "is_selfdestructed dead"
    and "is_touched live" and "\<not> is_selfdestructed live"
    and "acc_storage dead = [(slot, v)]" and "acc_storage live = []"
  shows "fork_storage_ref (fork_commit (fork_commit db [(a, dead)]) [(a, live)]) a slot = Inr 0 \<and>
    fork_storage_ref (fork_commit db (bc_state_changes (merge_state
      \<lparr>bc_block_num = n, bc_block_hash = h, bc_state_changes = [(a, dead)]\<rparr> [(a, live)]))) a slot
      = Inr (present_value v)"
  using assms
  by (simp add: fork_commit_def fork_commit_account_storage committed_storage_def
      merge_state_def merge_account_def hm_insert_def hm_extend_def is_touched_def
      is_selfdestructed_def)

end
