(* ===== verification/MockDb.thy ===== *)
theory MockDb
  imports ForkDb
begin

text \<open>
  \<^verbatim>\<open>src/db/overlay/test_utils.rs\<close>: the database the overlay and the executor are tested with, and the one
  database of the crate that is written in place.  Its four maps are those of the record \<open>mock_db\<close>;
  the call counters, shared cells in the source so that reads through a shared reference can count, are
  fields of the same record, and every read returns the record with its counter one higher (the
  addition wraps, as it does in a release build).  The two read interfaces and the commit are
  definitions of their own, as in the source.
  The lemmas show that reads change nothing but the counters and that the commit meets the contract
  \<open>committing_db\<close>; a fork over the database therefore answers as if every commit had been written in place.
\<close>

section \<open>State\<close>

record mock_db =
  mock_accounts :: "address \<rightharpoonup> account_info"
  mock_contracts :: "b256 \<rightharpoonup> bytecode"
  mock_storage :: "address \<rightharpoonup> (u256 \<rightharpoonup> u256)"
  mock_block_hashes :: "u64 \<rightharpoonup> b256"
  basic_calls :: u64
  code_calls :: u64
  storage_calls :: u64
  block_hash_calls :: u64

definition mock_new :: mock_db where
  "mock_new = \<lparr>mock_accounts = Map.empty, mock_contracts = Map.empty, mock_storage = Map.empty,
     mock_block_hashes = Map.empty, basic_calls = 0, code_calls = 0, storage_calls = 0,
     block_hash_calls = 0\<rparr>"

section \<open>Population and counters\<close>

definition mock_insert_account :: "mock_db \<Rightarrow> address \<Rightarrow> account_info \<Rightarrow> mock_db" where
  "mock_insert_account m a i = m\<lparr>
     mock_contracts := (case info_code i of
         Some c \<Rightarrow> (mock_contracts m)(info_code_hash i \<mapsto> c) | None \<Rightarrow> mock_contracts m),
     mock_accounts := (mock_accounts m)(a \<mapsto> i)\<rparr>"

definition mock_insert_storage :: "mock_db \<Rightarrow> address \<Rightarrow> u256 \<Rightarrow> u256 \<Rightarrow> mock_db" where
  "mock_insert_storage m a slot v = m\<lparr>mock_storage := (mock_storage m)(a \<mapsto>
     (case mock_storage m a of None \<Rightarrow> Map.empty | Some st \<Rightarrow> st)(slot \<mapsto> v))\<rparr>"

definition mock_insert_block_hash :: "mock_db \<Rightarrow> u64 \<Rightarrow> b256 \<Rightarrow> mock_db" where
  "mock_insert_block_hash m n h = m\<lparr>mock_block_hashes := (mock_block_hashes m)(n \<mapsto> h)\<rparr>"

definition get_basic_calls :: "mock_db \<Rightarrow> u64" where
  "get_basic_calls m = basic_calls m"

definition get_code_calls :: "mock_db \<Rightarrow> u64" where
  "get_code_calls m = code_calls m"

definition get_storage_calls :: "mock_db \<Rightarrow> u64" where
  "get_storage_calls m = storage_calls m"

definition get_block_hash_calls :: "mock_db \<Rightarrow> u64" where
  "get_block_hash_calls m = block_hash_calls m"

text \<open>The hash of the empty code and revm's \<^verbatim>\<open>Bytecode::hash_slow\<close> are parameters.\<close>

definition mock_account_info ::
  "b256 \<Rightarrow> (bytecode \<Rightarrow> b256) \<Rightarrow> u256 \<Rightarrow> u64 \<Rightarrow> bytecode option \<Rightarrow> account_info" where
  "mock_account_info keccak_empty hash_slow balance nonce code =
     \<lparr>info_balance = balance, info_nonce = nonce,
      info_code_hash = (case code of None \<Rightarrow> keccak_empty | Some c \<Rightarrow> hash_slow c), info_code = code\<rparr>"

section \<open>Commit\<close>

definition mock_commit_account :: "address \<times> account \<Rightarrow> mock_db \<Rightarrow> mock_db" where
  "mock_commit_account = (\<lambda>(a, acct) m.
     if \<not> is_touched acct then m
     else if is_selfdestructed acct then
       m\<lparr>mock_accounts := (mock_accounts m)(a \<mapsto> acc_info acct),
         mock_storage := (mock_storage m)(a \<mapsto> Map.empty)\<rparr>
     else
       m\<lparr>mock_contracts := (case info_code (acc_info acct) of
              Some c \<Rightarrow> (mock_contracts m)(info_code_hash (acc_info acct) \<mapsto> c)
            | None \<Rightarrow> mock_contracts m),
         mock_accounts := (mock_accounts m)(a \<mapsto> acc_info acct),
         mock_storage := (mock_storage m)(a \<mapsto> (case mock_storage m a of
              Some s \<Rightarrow> s ++ present_values (acc_storage acct)
            | None \<Rightarrow> present_values (acc_storage acct)))\<rparr>)"

definition mock_commit :: "mock_db \<Rightarrow> evm_state \<Rightarrow> mock_db" where
  "mock_commit m changes = fold mock_commit_account changes m"

section \<open>Reads\<close>

definition mock_basic_ref ::
  "mock_db \<Rightarrow> address \<Rightarrow> (overlay_error, account_info option) result \<times> mock_db" where
  "mock_basic_ref m a = (Inr (mock_accounts m a), m\<lparr>basic_calls := basic_calls m + 1\<rparr>)"

definition mock_code_by_hash_ref ::
  "mock_db \<Rightarrow> b256 \<Rightarrow> (overlay_error, bytecode) result \<times> mock_db" where
  "mock_code_by_hash_ref m h =
     (ok_or NotFoundError (mock_contracts m h), m\<lparr>code_calls := code_calls m + 1\<rparr>)"

definition mock_storage_ref ::
  "mock_db \<Rightarrow> address \<Rightarrow> u256 \<Rightarrow> (overlay_error, u256) result \<times> mock_db" where
  "mock_storage_ref m a slot =
     (Inr (case Option.bind (mock_storage m a) (\<lambda>st. st slot) of None \<Rightarrow> 0 | Some v \<Rightarrow> v),
      m\<lparr>storage_calls := storage_calls m + 1\<rparr>)"

definition mock_block_hash_ref ::
  "mock_db \<Rightarrow> u64 \<Rightarrow> (overlay_error, b256) result \<times> mock_db" where
  "mock_block_hash_ref m n =
     (ok_or NotFoundError (mock_block_hashes m n), m\<lparr>block_hash_calls := block_hash_calls m + 1\<rparr>)"

definition mock_ref :: "mock_db \<Rightarrow> overlay_error db_ref" where
  "mock_ref m = \<lparr>basic_ref = \<lambda>a. fst (mock_basic_ref m a),
     storage_ref = \<lambda>a slot. fst (mock_storage_ref m a slot),
     code_by_hash_ref = \<lambda>h. fst (mock_code_by_hash_ref m h),
     block_hash_ref = \<lambda>n. fst (mock_block_hash_ref m n)\<rparr>"

definition mock_database_ops :: "(mock_db, overlay_error) database_ops" where
  "mock_database_ops = \<lparr>
     db_basic = \<lambda>m a. (Inr (mock_accounts m a), m\<lparr>basic_calls := basic_calls m + 1\<rparr>),
     db_code_by_hash = \<lambda>m h.
       (ok_or NotFoundError (mock_contracts m h), m\<lparr>code_calls := code_calls m + 1\<rparr>),
     db_storage = \<lambda>m a slot.
       (Inr (case Option.bind (mock_storage m a) (\<lambda>st. st slot) of None \<Rightarrow> 0 | Some v \<Rightarrow> v),
        m\<lparr>storage_calls := storage_calls m + 1\<rparr>),
     db_block_hash = \<lambda>m n.
       (ok_or NotFoundError (mock_block_hashes m n),
        m\<lparr>block_hash_calls := block_hash_calls m + 1\<rparr>)\<rparr>"

section \<open>Lemmas\<close>

text \<open>A mutable database whose reads leave what it answers unchanged.\<close>

locale read_only_db =
  fixes D :: "('d, 'e) database_ops"
  assumes basic_view: "database_view D (snd (db_basic D d a)) = database_view D d"
    and code_view: "database_view D (snd (db_code_by_hash D d h)) = database_view D d"
    and storage_view: "database_view D (snd (db_storage D d a slot)) = database_view D d"
    and block_hash_view: "database_view D (snd (db_block_hash D d n)) = database_view D d"

lemmas mock_ref_defs = mock_ref_def mock_basic_ref_def mock_storage_ref_def mock_code_by_hash_ref_def
  mock_block_hash_ref_def

lemma mock_ref_view [simp]: "database_view mock_database_ops m = mock_ref m"
  by (simp add: mock_database_ops_def database_view_def mock_ref_defs)

lemma mock_ref_more [simp]:
  "mock_ref (m\<lparr>basic_calls := i\<rparr>) = mock_ref m" "mock_ref (m\<lparr>code_calls := i\<rparr>) = mock_ref m"
  "mock_ref (m\<lparr>storage_calls := i\<rparr>) = mock_ref m" "mock_ref (m\<lparr>block_hash_calls := i\<rparr>) = mock_ref m"
  by (simp_all add: mock_ref_defs)

lemma mock_reads_count [simp]:
  "snd (db_basic mock_database_ops m a) = m\<lparr>basic_calls := basic_calls m + 1\<rparr>"
  "snd (db_code_by_hash mock_database_ops m h) = m\<lparr>code_calls := code_calls m + 1\<rparr>"
  "snd (db_storage mock_database_ops m a slot) = m\<lparr>storage_calls := storage_calls m + 1\<rparr>"
  "snd (db_block_hash mock_database_ops m n) = m\<lparr>block_hash_calls := block_hash_calls m + 1\<rparr>"
  by (simp_all add: mock_database_ops_def)

interpretation mock: read_only_db mock_database_ops
  by unfold_locales simp_all

interpretation mock_commits: committing_db mock_commit_account mock_ref
proof
  fix x :: "address \<times> account" and m
  obtain k acct where x: "x = (k, acct)" by (cases x)
  show "mock_ref (mock_commit_account x m) = ref_commit_account x (mock_ref m)"
    by (auto simp: x ref_commit_account_def mock_commit_account_def mock_ref_defs fun_eq_iff
        committed_storage_def map_add_def split: option.splits)
qed

text \<open>An account inserted with its code is read back with it, and its code under its hash.\<close>

lemma mock_insert_account_reads:
  "basic_ref (mock_ref (mock_insert_account m a i)) b =
     (if b = a then Inr (Some i) else basic_ref (mock_ref m) b)"
  "info_code i = Some c \<Longrightarrow> code_by_hash_ref (mock_ref (mock_insert_account m a i)) (info_code_hash i) = Inr c"
  by (simp_all add: mock_insert_account_def mock_ref_defs)

lemma mock_insert_storage_reads:
  "storage_ref (mock_ref (mock_insert_storage m a slot v)) b s =
     (if b = a \<and> s = slot then Inr v else storage_ref (mock_ref m) b s)"
  by (auto simp: mock_insert_storage_def mock_ref_defs split: option.splits)

lemma mock_insert_block_hash_reads:
  "block_hash_ref (mock_ref (mock_insert_block_hash m n h)) k =
     (if k = n then Inr h else block_hash_ref (mock_ref m) k)"
  by (simp add: mock_insert_block_hash_def mock_ref_defs)

section \<open>Properties\<close>

text \<open>C34. A fork is the database written in place: after any sequence of commits, all four reads of a
  fork over a database answer exactly as that database does when the same changes are committed to
  it directly, errors and destroyed accounts included.\<close>

theorem fork_commits_in_place:
  "fork_ref (fold (\<lambda>changes db. fork_commit db changes) css (fork_new (mock_ref m))) =
     mock_ref (fold (\<lambda>changes m. mock_commit m changes) css m)"
  unfolding fork_commit_def mock_commit_def
  by (simp add: fork_commits.commits_view mock_commits.commits_view)

end
