(* ===== verification/Overlay.thy ===== *)
theory Overlay
  imports MockDb
begin

text \<open>
  \<^verbatim>\<open>src/db/overlay/mod.rs\<close> and \<^verbatim>\<open>src/db/overlay/active_overlay.rs\<close>: a cache of EVM state
  in front of a database.  The cache (\<^verbatim>\<open>moka::sync::Cache\<close>) is a parameter: the record
  \<open>cache_ops\<close> of the operations the crate calls, over an abstract cache state.  Its documented
  behaviour is the locale \<open>moka_cache\<close>: a lookup returns the stored value or nothing, and every
  operation may evict entries but never invents one.  Reads populate the cache, so they return the
  new state beside the answer; an \<^verbatim>\<open>unwrap\<close> of a value of the wrong kind is the error
  \<open>Panic\<close>.  The database under \<^verbatim>\<open>ActiveOverlay\<close> has mutable methods, a record of
  state-passing functions.
  The locale \<open>transparent_reads\<close> is the contract a caching reader offers its clients: answers
  are those of a pure view and reads never change the view.  Both readers provide it.
\<close>

section \<open>Keys, values and the cache\<close>

datatype table_key =
    KBasic address
  | KCodeByHash b256
  | KStorage address u256
  | KBlockHash u64

datatype table_value =
    VBasic account_info
  | VCodeByHash bytecode
  | VStorage b256
  | VBlockHash b256

primrec as_basic :: "table_value \<Rightarrow> account_info option" where
  "as_basic (VBasic i) = Some i"
| "as_basic (VCodeByHash c) = None"
| "as_basic (VStorage s) = None"
| "as_basic (VBlockHash h) = None"

primrec as_code_by_hash :: "table_value \<Rightarrow> bytecode option" where
  "as_code_by_hash (VBasic i) = None"
| "as_code_by_hash (VCodeByHash c) = Some c"
| "as_code_by_hash (VStorage s) = None"
| "as_code_by_hash (VBlockHash h) = None"

primrec as_storage :: "table_value \<Rightarrow> b256 option" where
  "as_storage (VBasic i) = None"
| "as_storage (VCodeByHash c) = None"
| "as_storage (VStorage s) = Some s"
| "as_storage (VBlockHash h) = None"

primrec as_block_hash :: "table_value \<Rightarrow> b256 option" where
  "as_block_hash (VBasic i) = None"
| "as_block_hash (VCodeByHash c) = None"
| "as_block_hash (VStorage s) = None"
| "as_block_hash (VBlockHash h) = Some h"

record 'c cache_ops =
  cache_get :: "'c \<Rightarrow> table_key \<Rightarrow> table_value option \<times> 'c"
  cache_insert :: "'c \<Rightarrow> table_key \<Rightarrow> table_value \<Rightarrow> 'c"
  cache_contains_key :: "'c \<Rightarrow> table_key \<Rightarrow> bool"
  cache_run_pending_tasks :: "'c \<Rightarrow> 'c"
  cache_invalidate_all :: "'c \<Rightarrow> 'c"
  cache_entry_count :: "'c \<Rightarrow> u64"
  cache_new :: "u64 \<Rightarrow> 'c"

text \<open>\<^verbatim>\<open>U256::to_be_bytes().into()\<close> and back: a \<^verbatim>\<open>B256\<close> is its 32 bytes.\<close>

definition b256_of_u256 :: "u256 \<Rightarrow> b256" where
  "b256_of_u256 v = from_be_bytes (to_be_bytes v)"

definition u256_of_b256 :: "b256 \<Rightarrow> u256" where
  "u256_of_b256 b = from_be_bytes (to_be_bytes b)"

section \<open>OverlayDb\<close>

record ('c, 'e) overlay_db =
  underlying_db :: "'e db_ref option"
  overlay :: 'c

definition overlay_default :: "'c cache_ops \<Rightarrow> ('c, 'e) overlay_db" where
  "overlay_default M = \<lparr>underlying_db = None, overlay = cache_new M 1024\<rparr>"

definition overlay_new :: "'c cache_ops \<Rightarrow> 'e db_ref option \<Rightarrow> u64 \<Rightarrow> ('c, 'e) overlay_db" where
  "overlay_new M u cap = \<lparr>underlying_db = u, overlay = cache_new M cap\<rparr>"

definition overlay_new_with_len ::
  "'c cache_ops \<Rightarrow> 'e db_ref option \<Rightarrow> u64 \<Rightarrow> ('c, 'e) overlay_db" where
  "overlay_new_with_len M u cap = \<lparr>underlying_db = u, overlay = cache_new M cap\<rparr>"

text \<open>The overlay of the tests: \<open>in_memory\<close> is the reads of revm's \<^verbatim>\<open>InMemoryDB\<close> over an
  \<^verbatim>\<open>EmptyDB\<close>.\<close>

definition overlay_new_test :: "'c cache_ops \<Rightarrow> 'e db_ref \<Rightarrow> ('c, 'e) overlay_db" where
  "overlay_new_test M in_memory = \<lparr>underlying_db = Some in_memory, overlay = cache_new M 10000\<rparr>"

definition overlay_run_pending_tasks ::
  "'c cache_ops \<Rightarrow> ('c, 'e) overlay_db \<Rightarrow> ('c, 'e) overlay_db" where
  "overlay_run_pending_tasks M db = db\<lparr>overlay := cache_run_pending_tasks M (overlay db)\<rparr>"

definition overlay_invalidate_all ::
  "'c cache_ops \<Rightarrow> ('c, 'e) overlay_db \<Rightarrow> ('c, 'e) overlay_db" where
  "overlay_invalidate_all M db = db\<lparr>overlay := cache_invalidate_all M (overlay db)\<rparr>"

definition replace_underlying ::
  "('c, 'e) overlay_db \<Rightarrow> 'e db_ref option \<Rightarrow> ('c, 'e) overlay_db" where
  "replace_underlying db u = db\<lparr>underlying_db := u\<rparr>"

definition overlay_is_cached :: "'c cache_ops \<Rightarrow> ('c, 'e) overlay_db \<Rightarrow> table_key \<Rightarrow> bool" where
  "overlay_is_cached M db k = cache_contains_key M (overlay db) k"

definition overlay_cache_entry_count :: "'c cache_ops \<Rightarrow> ('c, 'e) overlay_db \<Rightarrow> u64" where
  "overlay_cache_entry_count M db = cache_entry_count M (overlay db)"

definition overlay_basic_ref :: "'c cache_ops \<Rightarrow> ('c, 'e) overlay_db \<Rightarrow> address \<Rightarrow>
    (overlay_error, account_info option) result \<times> ('c, 'e) overlay_db" where
  "overlay_basic_ref M db a = (let k = KBasic a; (hit, c) = cache_get M (overlay db) k;
       db' = db\<lparr>overlay := c\<rparr> in
     case hit of
       Some v \<Rightarrow> (Inr (as_basic v), db')
     | None \<Rightarrow> (case underlying_db db of
           Some u \<Rightarrow> (case basic_ref u a of
               Inl e \<Rightarrow> (Inl NotFoundError, db')
             | Inr (Some i) \<Rightarrow> (Inr (Some i), db'\<lparr>overlay := cache_insert M c k (VBasic i)\<rparr>)
             | Inr None \<Rightarrow> (Inr None, db'))
         | None \<Rightarrow> (Inr None, db')))"

definition overlay_code_by_hash_ref :: "'c cache_ops \<Rightarrow> ('c, 'e) overlay_db \<Rightarrow> b256 \<Rightarrow>
    (overlay_error, bytecode) result \<times> ('c, 'e) overlay_db" where
  "overlay_code_by_hash_ref M db h = (let k = KCodeByHash h; (hit, c) = cache_get M (overlay db) k;
       db' = db\<lparr>overlay := c\<rparr> in
     case hit of
       Some v \<Rightarrow> (ok_or Panic (as_code_by_hash v), db')
     | None \<Rightarrow> (case underlying_db db of
           Some u \<Rightarrow> (case code_by_hash_ref u h of
               Inl e \<Rightarrow> (Inl NotFoundError, db')
             | Inr b \<Rightarrow> (Inr b, db'\<lparr>overlay := cache_insert M c k (VCodeByHash b)\<rparr>))
         | None \<Rightarrow> (Inl NotFoundError, db')))"

definition overlay_storage_ref :: "'c cache_ops \<Rightarrow> ('c, 'e) overlay_db \<Rightarrow> address \<Rightarrow> u256 \<Rightarrow>
    (overlay_error, u256) result \<times> ('c, 'e) overlay_db" where
  "overlay_storage_ref M db a slot = (let k = KStorage a slot;
       (hit, c) = cache_get M (overlay db) k; db' = db\<lparr>overlay := c\<rparr> in
     case hit of
       Some v \<Rightarrow> (result_bind (ok_or Panic (as_storage v)) (\<lambda>b. Inr (u256_of_b256 b)), db')
     | None \<Rightarrow> (case underlying_db db of
           Some u \<Rightarrow> (case storage_ref u a slot of
               Inl e \<Rightarrow> (Inl NotFoundError, db')
             | Inr v \<Rightarrow> (Inr v, db'\<lparr>overlay := cache_insert M c k (VStorage (b256_of_u256 v))\<rparr>))
         | None \<Rightarrow> (Inr 0, db')))"

definition overlay_block_hash_ref :: "'c cache_ops \<Rightarrow> ('c, 'e) overlay_db \<Rightarrow> u64 \<Rightarrow>
    (overlay_error, b256) result \<times> ('c, 'e) overlay_db" where
  "overlay_block_hash_ref M db n = (let k = KBlockHash n; (hit, c) = cache_get M (overlay db) k;
       db' = db\<lparr>overlay := c\<rparr> in
     case hit of
       Some v \<Rightarrow> (ok_or Panic (as_block_hash v), db')
     | None \<Rightarrow> (case underlying_db db of
           Some u \<Rightarrow> (case block_hash_ref u n of
               Inl e \<Rightarrow> (Inl NotFoundError, db')
             | Inr h \<Rightarrow> (Inr h, db'\<lparr>overlay := cache_insert M c k (VBlockHash h)\<rparr>))
         | None \<Rightarrow> (Inl NotFoundError, db')))"

text \<open>The commit writes only to the cache, one insertion per account, code and slot.\<close>

definition cache_commit_account :: "'c cache_ops \<Rightarrow> address \<times> account \<Rightarrow> 'c \<Rightarrow> 'c" where
  "cache_commit_account M = (\<lambda>(a, acct) c.
     if \<not> is_touched acct then c
     else
       let c1 = cache_insert M c (KBasic a) (VBasic (acc_info acct));
           c2 = (case info_code (acc_info acct) of
               Some code \<Rightarrow>
                 cache_insert M c1 (KCodeByHash (info_code_hash (acc_info acct))) (VCodeByHash code)
             | None \<Rightarrow> c1)
       in fold (\<lambda>(slot, s) c3. cache_insert M c3 (KStorage a slot)
                  (VStorage (b256_of_u256 (present_value s)))) (acc_storage acct) c2)"

definition overlay_commit ::
  "'c cache_ops \<Rightarrow> ('c, 'e) overlay_db \<Rightarrow> evm_state \<Rightarrow> ('c, 'e) overlay_db" where
  "overlay_commit M db changes = db\<lparr>overlay := fold (cache_commit_account M) changes (overlay db)\<rparr>"

section \<open>ActiveOverlay\<close>

record ('c, 'd) active_overlay =
  active_db :: 'd
  active_cache :: 'c

definition active_overlay_new :: "'d \<Rightarrow> 'c \<Rightarrow> ('c, 'd) active_overlay" where
  "active_overlay_new d c = \<lparr>active_db = d, active_cache = c\<rparr>"

definition create_overlay :: "('c, 'e) overlay_db \<Rightarrow> 'd \<Rightarrow> ('c, 'd) active_overlay" where
  "create_overlay db d = active_overlay_new d (overlay db)"

definition active_run_pending_tasks ::
  "'c cache_ops \<Rightarrow> ('c, 'd) active_overlay \<Rightarrow> ('c, 'd) active_overlay" where
  "active_run_pending_tasks M ao = ao\<lparr>active_cache := cache_run_pending_tasks M (active_cache ao)\<rparr>"

definition active_is_cached :: "'c cache_ops \<Rightarrow> ('c, 'd) active_overlay \<Rightarrow> table_key \<Rightarrow>
    bool \<times> ('c, 'd) active_overlay" where
  "active_is_cached M ao k = (let (hit, c) = cache_get M (active_cache ao) k in
     (hit \<noteq> None, ao\<lparr>active_cache := c\<rparr>))"

definition active_basic_ref :: "'c cache_ops \<Rightarrow> ('d, 'e) database_ops \<Rightarrow>
    ('c, 'd) active_overlay \<Rightarrow> address \<Rightarrow>
    (overlay_error, account_info option) result \<times> ('c, 'd) active_overlay" where
  "active_basic_ref M D ao a = (let k = KBasic a; (hit, c) = cache_get M (active_cache ao) k;
       ao' = ao\<lparr>active_cache := c\<rparr> in
     case hit of
       Some v \<Rightarrow> (Inr (as_basic v), ao')
     | None \<Rightarrow> (let (r, d) = db_basic D (active_db ao) a; ao'' = ao'\<lparr>active_db := d\<rparr> in
         case r of
           Inl e \<Rightarrow> (Inl NotFoundError, ao'')
         | Inr (Some i) \<Rightarrow> (Inr (Some i), ao''\<lparr>active_cache := cache_insert M c k (VBasic i)\<rparr>)
         | Inr None \<Rightarrow> (Inr None, ao'')))"

definition active_code_by_hash_ref :: "'c cache_ops \<Rightarrow> ('d, 'e) database_ops \<Rightarrow>
    ('c, 'd) active_overlay \<Rightarrow> b256 \<Rightarrow>
    (overlay_error, bytecode) result \<times> ('c, 'd) active_overlay" where
  "active_code_by_hash_ref M D ao h = (let k = KCodeByHash h;
       (hit, c) = cache_get M (active_cache ao) k; ao' = ao\<lparr>active_cache := c\<rparr> in
     case hit of
       Some v \<Rightarrow> (ok_or Panic (as_code_by_hash v), ao')
     | None \<Rightarrow> (let (r, d) = db_code_by_hash D (active_db ao) h; ao'' = ao'\<lparr>active_db := d\<rparr> in
         case r of
           Inl e \<Rightarrow> (Inl NotFoundError, ao'')
         | Inr b \<Rightarrow> (Inr b, ao''\<lparr>active_cache := cache_insert M c k (VCodeByHash b)\<rparr>)))"

definition active_storage_ref :: "'c cache_ops \<Rightarrow> ('d, 'e) database_ops \<Rightarrow>
    ('c, 'd) active_overlay \<Rightarrow> address \<Rightarrow> u256 \<Rightarrow>
    (overlay_error, u256) result \<times> ('c, 'd) active_overlay" where
  "active_storage_ref M D ao a slot = (let k = KStorage a slot;
       (hit, c) = cache_get M (active_cache ao) k; ao' = ao\<lparr>active_cache := c\<rparr> in
     case hit of
       Some v \<Rightarrow> (result_bind (ok_or Panic (as_storage v)) (\<lambda>b. Inr (u256_of_b256 b)), ao')
     | None \<Rightarrow> (let (r, d) = db_storage D (active_db ao) a slot; ao'' = ao'\<lparr>active_db := d\<rparr> in
         case r of
           Inl e \<Rightarrow> (Inl NotFoundError, ao'')
         | Inr v \<Rightarrow>
             (Inr v, ao''\<lparr>active_cache := cache_insert M c k (VStorage (b256_of_u256 v))\<rparr>)))"

definition active_block_hash_ref :: "'c cache_ops \<Rightarrow> ('d, 'e) database_ops \<Rightarrow>
    ('c, 'd) active_overlay \<Rightarrow> u64 \<Rightarrow>
    (overlay_error, b256) result \<times> ('c, 'd) active_overlay" where
  "active_block_hash_ref M D ao n = (let k = KBlockHash n;
       (hit, c) = cache_get M (active_cache ao) k; ao' = ao\<lparr>active_cache := c\<rparr> in
     case hit of
       Some v \<Rightarrow> (ok_or Panic (as_block_hash v), ao')
     | None \<Rightarrow> (let (r, d) = db_block_hash D (active_db ao) n; ao'' = ao'\<lparr>active_db := d\<rparr> in
         case r of
           Inl e \<Rightarrow> (Inl NotFoundError, ao'')
         | Inr h \<Rightarrow> (Inr h, ao''\<lparr>active_cache := cache_insert M c k (VBlockHash h)\<rparr>)))"

definition active_commit ::
  "'c cache_ops \<Rightarrow> ('c, 'd) active_overlay \<Rightarrow> evm_state \<Rightarrow> ('c, 'd) active_overlay" where
  "active_commit M ao changes =
     ao\<lparr>active_cache := fold (cache_commit_account M) changes (active_cache ao)\<rparr>"

text \<open>A fork of an overlay reads it through a snapshot of its four read methods.\<close>

definition overlay_ref :: "'c cache_ops \<Rightarrow> ('c, 'e) overlay_db \<Rightarrow> overlay_error db_ref" where
  "overlay_ref M db = \<lparr>basic_ref = \<lambda>a. fst (overlay_basic_ref M db a),
     storage_ref = \<lambda>a slot. fst (overlay_storage_ref M db a slot),
     code_by_hash_ref = \<lambda>h. fst (overlay_code_by_hash_ref M db h),
     block_hash_ref = \<lambda>n. fst (overlay_block_hash_ref M db n)\<rparr>"

definition overlay_fork :: "'c cache_ops \<Rightarrow> ('c, 'e) overlay_db \<Rightarrow> overlay_error fork_db" where
  "overlay_fork M db = fork_new (overlay_ref M db)"

definition active_ref ::
  "'c cache_ops \<Rightarrow> ('d, 'e) database_ops \<Rightarrow> ('c, 'd) active_overlay \<Rightarrow> overlay_error db_ref" where
  "active_ref M D ao = \<lparr>basic_ref = \<lambda>a. fst (active_basic_ref M D ao a),
     storage_ref = \<lambda>a slot. fst (active_storage_ref M D ao a slot),
     code_by_hash_ref = \<lambda>h. fst (active_code_by_hash_ref M D ao h),
     block_hash_ref = \<lambda>n. fst (active_block_hash_ref M D ao n)\<rparr>"

definition active_fork ::
  "'c cache_ops \<Rightarrow> ('d, 'e) database_ops \<Rightarrow> ('c, 'd) active_overlay \<Rightarrow> overlay_error fork_db" where
  "active_fork M D ao = fork_new (active_ref M D ao)"

section \<open>Answers of the four reads as one function of the key\<close>

datatype db_answer =
    ABasic "(overlay_error, account_info option) result"
  | ACode "(overlay_error, bytecode) result"
  | AStorage "(overlay_error, u256) result"
  | ABlockHash "(overlay_error, b256) result"

definition overlay_read ::
  "'c cache_ops \<Rightarrow> ('c, 'e) overlay_db \<Rightarrow> table_key \<Rightarrow> db_answer \<times> ('c, 'e) overlay_db" where
  "overlay_read M db k = (case k of
       KBasic a \<Rightarrow> apfst ABasic (overlay_basic_ref M db a)
     | KCodeByHash h \<Rightarrow> apfst ACode (overlay_code_by_hash_ref M db h)
     | KStorage a slot \<Rightarrow> apfst AStorage (overlay_storage_ref M db a slot)
     | KBlockHash n \<Rightarrow> apfst ABlockHash (overlay_block_hash_ref M db n))"

definition active_read :: "'c cache_ops \<Rightarrow> ('d, 'e) database_ops \<Rightarrow> ('c, 'd) active_overlay \<Rightarrow>
    table_key \<Rightarrow> db_answer \<times> ('c, 'd) active_overlay" where
  "active_read M D ao k = (case k of
       KBasic a \<Rightarrow> apfst ABasic (active_basic_ref M D ao a)
     | KCodeByHash h \<Rightarrow> apfst ACode (active_code_by_hash_ref M D ao h)
     | KStorage a slot \<Rightarrow> apfst AStorage (active_storage_ref M D ao a slot)
     | KBlockHash n \<Rightarrow> apfst ABlockHash (active_block_hash_ref M D ao n))"

fun hit_answer :: "table_key \<Rightarrow> table_value \<Rightarrow> db_answer" where
  "hit_answer (KBasic a) v = ABasic (Inr (as_basic v))"
| "hit_answer (KCodeByHash h) v = ACode (ok_or Panic (as_code_by_hash v))"
| "hit_answer (KStorage a slot) v =
     AStorage (result_bind (ok_or Panic (as_storage v)) (\<lambda>b. Inr (u256_of_b256 b)))"
| "hit_answer (KBlockHash n) v = ABlockHash (ok_or Panic (as_block_hash v))"

fun miss_answer :: "'e db_ref option \<Rightarrow> table_key \<Rightarrow> db_answer" where
  "miss_answer None (KBasic a) = ABasic (Inr None)"
| "miss_answer None (KCodeByHash h) = ACode (Inl NotFoundError)"
| "miss_answer None (KStorage a slot) = AStorage (Inr 0)"
| "miss_answer None (KBlockHash n) = ABlockHash (Inl NotFoundError)"
| "miss_answer (Some u) (KBasic a) = ABasic (map_err (\<lambda>_. NotFoundError) (basic_ref u a))"
| "miss_answer (Some u) (KCodeByHash h) = ACode (map_err (\<lambda>_. NotFoundError) (code_by_hash_ref u h))"
| "miss_answer (Some u) (KStorage a slot) =
     AStorage (map_err (\<lambda>_. NotFoundError) (storage_ref u a slot))"
| "miss_answer (Some u) (KBlockHash n) = ABlockHash (map_err (\<lambda>_. NotFoundError) (block_hash_ref u n))"

fun well_typed :: "table_key \<Rightarrow> table_value \<Rightarrow> bool" where
  "well_typed (KBasic a) v \<longleftrightarrow> as_basic v \<noteq> None"
| "well_typed (KCodeByHash h) v \<longleftrightarrow> as_code_by_hash v \<noteq> None"
| "well_typed (KStorage a slot) v \<longleftrightarrow> as_storage v \<noteq> None"
| "well_typed (KBlockHash n) v \<longleftrightarrow> as_block_hash v \<noteq> None"

fun panics :: "db_answer \<Rightarrow> bool" where
  "panics (ABasic r) \<longleftrightarrow> r = Inl Panic"
| "panics (ACode r) \<longleftrightarrow> r = Inl Panic"
| "panics (AStorage r) \<longleftrightarrow> r = Inl Panic"
| "panics (ABlockHash r) \<longleftrightarrow> r = Inl Panic"

text \<open>A typed cache holds under every key a value of the key's kind; a coherent one holds what the
  underlying database answers.\<close>

definition typed :: "(table_key \<rightharpoonup> table_value) \<Rightarrow> bool" where
  "typed m \<longleftrightarrow> (\<forall>k v. m k = Some v \<longrightarrow> well_typed k v)"

definition coherent :: "'e db_ref option \<Rightarrow> (table_key \<rightharpoonup> table_value) \<Rightarrow> bool" where
  "coherent u m \<longleftrightarrow> (\<forall>k v. m k = Some v \<longrightarrow> hit_answer k v = miss_answer u k)"

text \<open>What one account writes.\<close>

definition account_entries :: "address \<Rightarrow> account \<Rightarrow> (table_key \<times> table_value) list" where
  "account_entries a acct =
     (if \<not> is_touched acct then []
      else (KBasic a, VBasic (acc_info acct))
        # (case info_code (acc_info acct) of
              Some code \<Rightarrow> [(KCodeByHash (info_code_hash (acc_info acct)), VCodeByHash code)]
            | None \<Rightarrow> [])
        @ map (\<lambda>(slot, s). (KStorage a slot, VStorage (b256_of_u256 (present_value s))))
            (acc_storage acct))"

definition commit_entries :: "evm_state \<Rightarrow> (table_key \<times> table_value) list" where
  "commit_entries changes = concat (map (\<lambda>(a, acct). account_entries a acct) changes)"

text \<open>A sequence of reads, the state threaded through.\<close>

primrec run_reads :: "('s \<Rightarrow> 'k \<Rightarrow> 'r \<times> 's) \<Rightarrow> 's \<Rightarrow> 'k list \<Rightarrow> 'r list \<times> 's" where
  "run_reads rd s [] = ([], s)"
| "run_reads rd s (k # ks) = (let (r, s') = rd s k; (rs, s'') = run_reads rd s' ks in (r # rs, s''))"

text \<open>The states an overlay and the active overlays that share its cache can reach.\<close>

inductive overlay_reach ::
  "'c cache_ops \<Rightarrow> ('d, 'f) database_ops \<Rightarrow> ('c, 'e) overlay_db \<Rightarrow> bool"
  for M and D :: "('d, 'f) database_ops" where
  reach_default: "overlay_reach M D (overlay_default M)"
| reach_new: "overlay_reach M D (overlay_new M u cap)"
| reach_new_with_len: "overlay_reach M D (overlay_new_with_len M u cap)"
| reach_read: "overlay_reach M D db \<Longrightarrow> overlay_reach M D (snd (overlay_read M db k))"
| reach_commit: "overlay_reach M D db \<Longrightarrow> overlay_reach M D (overlay_commit M db changes)"
| reach_pending: "overlay_reach M D db \<Longrightarrow> overlay_reach M D (overlay_run_pending_tasks M db)"
| reach_invalidate: "overlay_reach M D db \<Longrightarrow> overlay_reach M D (overlay_invalidate_all M db)"
| reach_replace: "overlay_reach M D db \<Longrightarrow> overlay_reach M D (replace_underlying db u)"
| reach_active_read: "overlay_reach M D db \<Longrightarrow>
    overlay_reach M D (db\<lparr>overlay := active_cache (snd (active_read M D (create_overlay db d) k))\<rparr>)"
| reach_active_commit: "overlay_reach M D db \<Longrightarrow>
    overlay_reach M D (db\<lparr>overlay := active_cache (active_commit M (create_overlay db (d :: 'd)) changes)\<rparr>)"

text \<open>The mock database after one more read of the kind of the key.\<close>

fun mock_count :: "table_key \<Rightarrow> mock_db \<Rightarrow> mock_db" where
  "mock_count (KBasic a) m = m\<lparr>basic_calls := basic_calls m + 1\<rparr>"
| "mock_count (KCodeByHash h) m = m\<lparr>code_calls := code_calls m + 1\<rparr>"
| "mock_count (KStorage a slot) m = m\<lparr>storage_calls := storage_calls m + 1\<rparr>"
| "mock_count (KBlockHash n) m = m\<lparr>block_hash_calls := block_hash_calls m + 1\<rparr>"

section \<open>A reference cache\<close>

text \<open>A concrete cache: a bounded list of entries, the oldest evicted first.\<close>

type_synonym fifo = "u64 \<times> (table_key \<times> table_value) list"

definition fifo_ops :: "fifo cache_ops" where
  "fifo_ops = \<lparr>
     cache_get = \<lambda>c k. (map_of (snd c) k, c),
     cache_insert = \<lambda>(cap, es) k v. (cap, take (unat cap) ((k, v) # filter (\<lambda>e. fst e \<noteq> k) es)),
     cache_contains_key = \<lambda>c k. map_of (snd c) k \<noteq> None,
     cache_run_pending_tasks = \<lambda>c. c,
     cache_invalidate_all = \<lambda>c. (fst c, []),
     cache_entry_count = \<lambda>c. of_nat (length (snd c)),
     cache_new = \<lambda>cap. (cap, [])\<rparr>"

section \<open>Contracts\<close>

text \<open>What the crate relies on of the cache: no operation invents an entry, a new cache and an
  invalidated one are empty.  Entries may be evicted at any time.\<close>

locale moka_cache =
  fixes M :: "'c cache_ops" and entries :: "'c \<Rightarrow> table_key \<rightharpoonup> table_value"
  assumes get_value: "fst (cache_get M c k) = entries c k"
    and get_entries: "entries (snd (cache_get M c k)) \<subseteq>\<^sub>m entries c"
    and insert_entries: "entries (cache_insert M c k v) \<subseteq>\<^sub>m (entries c)(k \<mapsto> v)"
    and contains_entries: "cache_contains_key M c k \<longleftrightarrow> entries c k \<noteq> None"
    and pending_entries: "entries (cache_run_pending_tasks M c) \<subseteq>\<^sub>m entries c"
    and invalidate_entries: "entries (cache_invalidate_all M c) = Map.empty"
    and new_entries: "entries (cache_new M cap) = Map.empty"

locale moka_over_db = moka_cache M entries + read_only_db D
  for M :: "'c cache_ops" and entries and D :: "('d, 'e) database_ops"

locale transparent_reads =
  fixes read :: "'s \<Rightarrow> 'k \<Rightarrow> 'r \<times> 's" and view :: "'s \<Rightarrow> 'k \<Rightarrow> 'r" and inv :: "'s \<Rightarrow> bool"
  assumes read_answer: "inv s \<Longrightarrow> fst (read s k) = view s k"
    and read_inv: "inv s \<Longrightarrow> inv (snd (read s k))"
    and read_view: "inv s \<Longrightarrow> view (snd (read s k)) = view s"
begin

lemma reads_answers:
  "inv s \<Longrightarrow> fst (run_reads read s ks) = map (view s) ks \<and> inv (snd (run_reads read s ks)) \<and>
    view (snd (run_reads read s ks)) = view s"
proof (induction ks arbitrary: s)
  case (Cons k ks)
  from Cons.IH [OF read_inv] Cons.prems show ?case
    by (simp add: read_answer read_view case_prod_beta Let_def)
qed simp

end

section \<open>Lemmas\<close>

lemma b256_roundtrip [simp]: "u256_of_b256 (b256_of_u256 v) = v"
  by (simp add: u256_of_b256_def b256_of_u256_def)

lemma reach_new_test: "overlay_reach M D (overlay_new_test M u)"
  using reach_new [of M D "Some u" 10000] by (simp add: overlay_new_def overlay_new_test_def)

lemma typed_empty [simp]: "typed Map.empty"
  by (simp add: typed_def)

lemma coherent_empty [simp]: "coherent u Map.empty"
  by (simp add: coherent_def)

lemma typed_le: "typed m' \<Longrightarrow> m \<subseteq>\<^sub>m m' \<Longrightarrow> typed m"
  unfolding typed_def map_le_def by (metis domI)

lemma typed_upd: "typed m \<Longrightarrow> well_typed k v \<Longrightarrow> typed (m(k \<mapsto> v))"
  by (simp add: typed_def)

lemma coherent_le: "coherent u m' \<Longrightarrow> m \<subseteq>\<^sub>m m' \<Longrightarrow> coherent u m"
  unfolding coherent_def map_le_def by (metis domI)

lemma coherent_upd: "coherent u m \<Longrightarrow> hit_answer k v = miss_answer u k \<Longrightarrow> coherent u (m(k \<mapsto> v))"
  by (simp add: coherent_def)

lemma typed_hit_no_panic: "well_typed k v \<Longrightarrow> \<not> panics (hit_answer k v)"
  by (cases k) auto

lemma miss_no_panic: "\<not> panics (miss_answer u k)"
  by (cases u; cases k) (auto simp: map_err_eq_Inl)

lemma cache_commit_account_entries:
  "cache_commit_account M (a, acct) c =
     fold (\<lambda>(k, v) c. cache_insert M c k v) (account_entries a acct) c"
  by (simp add: cache_commit_account_def account_entries_def fold_map comp_def case_prod_unfold
      Let_def split: option.splits)

lemma cache_commit_entries:
  "fold (cache_commit_account M) changes c =
     fold (\<lambda>(k, v) c. cache_insert M c k v) (commit_entries changes) c"
proof (induction changes arbitrary: c)
  case (Cons x xs)
  then show ?case
    by (cases x) (simp add: commit_entries_def cache_commit_account_entries)
qed (simp add: commit_entries_def)

lemma account_entries_storage:
  "(KStorage a slot, v) \<in> set (account_entries b acct) \<longleftrightarrow>
     b = a \<and> is_touched acct \<and>
     (\<exists>s. (slot, s) \<in> set (acc_storage acct) \<and> v = VStorage (b256_of_u256 (present_value s)))"
  by (cases "info_code (acc_info acct)") (auto simp: account_entries_def)

lemma commit_entries_storage:
  assumes "hm_ok changes" and "hm_get changes a = Some acct" and "hm_ok (acc_storage acct)"
  shows "map_of (rev (commit_entries changes)) (KStorage a slot) =
    (if is_touched acct
     then map_option (\<lambda>s. VStorage (b256_of_u256 (present_value s))) (hm_get (acc_storage acct) slot)
     else None)" (is "map_of ?es ?k = ?r")
proof -
  have mem: "(?k, v) \<in> set ?es \<longleftrightarrow> ?r = Some v" for v
  proof -
    have "(?k, v) \<in> set ?es \<longleftrightarrow> (\<exists>acct'. (a, acct') \<in> set changes \<and>
        (?k, v) \<in> set (account_entries a acct'))"
      by (auto simp: commit_entries_def account_entries_storage)
    also have "\<dots> \<longleftrightarrow> (?k, v) \<in> set (account_entries a acct)"
      using hm_get_in [OF assms(1)] assms(2) by auto
    finally show ?thesis
      by (auto simp: account_entries_storage hm_get_in [OF assms(3)])
  qed
  show ?thesis
  proof (cases "map_of ?es ?k")
    case None
    then have "(?k, v) \<notin> set ?es" for v by (force simp: map_of_eq_None_iff)
    with mem have "?r = None" by (metis not_None_eq)
    with None show ?thesis by simp
  next
    case (Some v)
    then have "(?k, v) \<in> set ?es" by (rule map_of_SomeD)
    with mem Some show ?thesis by simp
  qed
qed

lemma account_entries_typed: "(k, v) \<in> set (account_entries a acct) \<Longrightarrow> well_typed k v"
  by (cases "info_code (acc_info acct)") (auto simp: account_entries_def split: if_splits)

lemmas active_read_defs = active_read_def active_basic_ref_def active_code_by_hash_ref_def
  active_storage_ref_def active_block_hash_ref_def Let_def case_prod_beta

context moka_cache
begin

lemma overlay_read_answer:
  "fst (overlay_read M db k) = (case entries (overlay db) k of
      Some v \<Rightarrow> hit_answer k v | None \<Rightarrow> miss_answer (underlying_db db) k)"
  by (cases k; cases "underlying_db db")
    (auto simp: overlay_read_def overlay_basic_ref_def overlay_code_by_hash_ref_def
      overlay_storage_ref_def overlay_block_hash_ref_def Let_def case_prod_beta get_value
      split: option.splits sum.splits)

lemma overlay_read_underlying: "underlying_db (snd (overlay_read M db k)) = underlying_db db"
  by (auto simp: overlay_read_def overlay_basic_ref_def overlay_code_by_hash_ref_def
      overlay_storage_ref_def overlay_block_hash_ref_def Let_def case_prod_beta
      split: option.splits sum.splits table_key.splits)

lemma insert_after_get:
  "entries (cache_insert M (snd (cache_get M c k')) k v) \<subseteq>\<^sub>m (entries c)(k \<mapsto> v)"
  using insert_entries map_le_trans [OF _ map_le_upd [OF get_entries]] by blast

lemmas overlay_read_defs = overlay_read_def overlay_basic_ref_def overlay_code_by_hash_ref_def
  overlay_storage_ref_def overlay_block_hash_ref_def Let_def case_prod_beta

lemma overlay_read_entries:
  "entries (overlay (snd (overlay_read M db k))) \<subseteq>\<^sub>m entries (overlay db) \<or>
   (\<exists>v. entries (overlay (snd (overlay_read M db k))) \<subseteq>\<^sub>m (entries (overlay db))(k \<mapsto> v) \<and>
        well_typed k v \<and> hit_answer k v = miss_answer (underlying_db db) k)"
proof (cases "fst (cache_get M (overlay db) k)")
  case (Some v)
  then have "entries (overlay (snd (overlay_read M db k))) \<subseteq>\<^sub>m entries (overlay db)"
    by (cases k) (simp_all add: overlay_read_defs get_entries)
  then show ?thesis ..
next
  case miss: None
  show ?thesis
  proof (cases "underlying_db db")
    case None
    with miss have "entries (overlay (snd (overlay_read M db k))) \<subseteq>\<^sub>m entries (overlay db)"
      by (cases k) (simp_all add: overlay_read_defs get_entries)
    then show ?thesis ..
  next
    case (Some u)
    with miss show ?thesis
      using insert_after_get get_entries
      by (cases k) (fastforce simp: overlay_read_defs split: sum.splits option.splits)+
  qed
qed

lemma overlay_read_typed:
  "typed (entries (overlay db)) \<Longrightarrow> typed (entries (overlay (snd (overlay_read M db k))))"
  using overlay_read_entries [of db k] by (metis typed_le typed_upd)

lemma overlay_read_coherent:
  "coherent (underlying_db db) (entries (overlay db)) \<Longrightarrow>
   coherent (underlying_db db) (entries (overlay (snd (overlay_read M db k))))"
  using overlay_read_entries [of db k] by (metis coherent_le coherent_upd)

lemma overlay_coherent_answer:
  "coherent (underlying_db db) (entries (overlay db)) \<Longrightarrow>
   fst (overlay_read M db k) = miss_answer (underlying_db db) k"
  by (auto simp: overlay_read_answer coherent_def split: option.splits)

lemma inserts_entries:
  "entries (fold (\<lambda>(k, v) c. cache_insert M c k v) kvs c) \<subseteq>\<^sub>m (entries c)(map fst kvs [\<mapsto>] map snd kvs)"
proof (induction kvs arbitrary: c)
  case (Cons kv kvs)
  have "entries (fold (\<lambda>(k, v) c. cache_insert M c k v) kvs (cache_insert M c (fst kv) (snd kv)))
      \<subseteq>\<^sub>m (entries (cache_insert M c (fst kv) (snd kv)))(map fst kvs [\<mapsto>] map snd kvs)"
    by (rule Cons.IH)
  also have "\<dots> \<subseteq>\<^sub>m ((entries c)(fst kv \<mapsto> snd kv))(map fst kvs [\<mapsto>] map snd kvs)"
    using insert_entries by (rule map_le_upds)
  finally show ?case by (simp add: case_prod_unfold)
qed simp

lemma commit_cached_storage:
  assumes "hm_ok changes" and "hm_get changes a = Some acct" and "hm_ok (acc_storage acct)"
    and "is_touched acct"
    and "entries (fold (cache_commit_account M) changes c) (KStorage a slot) = Some v"
  shows "v = (case hm_get (acc_storage acct) slot of
      Some s \<Rightarrow> VStorage (b256_of_u256 (present_value s))
    | None \<Rightarrow> the (entries c (KStorage a slot)))"
    and "hm_get (acc_storage acct) slot = None \<Longrightarrow> entries c (KStorage a slot) \<noteq> None"
proof -
  have "entries c ++ map_of (rev (commit_entries changes)) =
      (entries c)(map fst (commit_entries changes) [\<mapsto>] map snd (commit_entries changes))"
    by (simp add: map_upds_def zip_map_fst_snd)
  with inserts_entries [of "commit_entries changes" c] assms(5)
  have "(entries c ++ map_of (rev (commit_entries changes))) (KStorage a slot) = Some v"
    unfolding cache_commit_entries by (metis domI map_le_def)
  then show "v = (case hm_get (acc_storage acct) slot of
      Some s \<Rightarrow> VStorage (b256_of_u256 (present_value s))
    | None \<Rightarrow> the (entries c (KStorage a slot)))"
    and "hm_get (acc_storage acct) slot = None \<Longrightarrow> entries c (KStorage a slot) \<noteq> None"
    using assms(4) by (auto simp: map_add_Some_iff commit_entries_storage [OF assms(1,2,3)]
        split: option.splits)
qed

lemma storage_ref_answer:
  "fst (overlay_storage_ref M db a slot) = (case entries (overlay db) (KStorage a slot) of
      Some v \<Rightarrow> result_bind (ok_or Panic (as_storage v)) (\<lambda>b. Inr (u256_of_b256 b))
    | None \<Rightarrow> (case underlying_db db of
        None \<Rightarrow> Inr 0
      | Some u \<Rightarrow> map_err (\<lambda>_. NotFoundError) (storage_ref u a slot)))"
  by (auto simp: overlay_storage_ref_def Let_def case_prod_beta get_value
      split: option.splits sum.splits)

lemma inserts_typed:
  "(\<And>k v. (k, v) \<in> set kvs \<Longrightarrow> well_typed k v) \<Longrightarrow> typed (entries c) \<Longrightarrow>
   typed (entries (fold (\<lambda>(k, v) c. cache_insert M c k v) kvs c))"
proof (induction kvs arbitrary: c)
  case (Cons kv kvs)
  then have "typed (entries (cache_insert M c (fst kv) (snd kv)))"
    by (intro typed_le [OF typed_upd insert_entries]) simp_all
  with Cons show ?case by (simp add: case_prod_unfold)
qed simp

lemma commit_typed:
  "typed (entries c) \<Longrightarrow> typed (entries (fold (cache_commit_account M) changes c))"
proof (induction changes arbitrary: c)
  case (Cons x xs)
  have "typed (entries (cache_commit_account M x c))"
    using Cons.prems
    by (cases x) (simp add: cache_commit_account_entries inserts_typed account_entries_typed)
  then show ?case by (simp add: Cons.IH)
qed simp

lemma active_read_answer:
  "fst (active_read M D ao k) = (case entries (active_cache ao) k of
      Some v \<Rightarrow> hit_answer k v
    | None \<Rightarrow> miss_answer (Some (database_view D (active_db ao))) k)"
  by (cases k) (auto simp: active_read_defs database_view_def get_value
      split: option.splits sum.splits)

text \<open>A read reaches the database only on a miss, and then once: what the call counters of the mock
  database are there to observe.\<close>

lemma active_read_calls:
  "active_db (snd (active_read M mock_database_ops ao k)) =
     (if entries (active_cache ao) k = None then mock_count k (active_db ao) else active_db ao)"
  by (cases k) (auto simp: active_read_defs get_value split: option.splits sum.splits)

lemma active_reread_no_call:
  assumes "entries (active_cache (snd (active_read M mock_database_ops ao k))) k \<noteq> None"
  shows "active_db (snd (active_read M mock_database_ops (snd (active_read M mock_database_ops ao k)) k)) =
    active_db (snd (active_read M mock_database_ops ao k))"
  using assms by (auto simp: active_read_calls [of "snd (active_read M mock_database_ops ao k)"])

lemma active_read_entries:
  "entries (active_cache (snd (active_read M D ao k))) \<subseteq>\<^sub>m entries (active_cache ao) \<or>
   (\<exists>v. entries (active_cache (snd (active_read M D ao k))) \<subseteq>\<^sub>m (entries (active_cache ao))(k \<mapsto> v) \<and>
        well_typed k v \<and> hit_answer k v = miss_answer (Some (database_view D (active_db ao))) k)"
proof (cases "fst (cache_get M (active_cache ao) k)")
  case (Some v)
  then have "entries (active_cache (snd (active_read M D ao k))) \<subseteq>\<^sub>m entries (active_cache ao)"
    by (cases k) (simp_all add: active_read_defs get_entries)
  then show ?thesis ..
next
  case None
  then show ?thesis
    using insert_after_get get_entries
    by (cases k) (fastforce simp: active_read_defs database_view_def
        split: sum.splits option.splits)+
qed

lemma active_read_typed:
  "typed (entries (active_cache ao)) \<Longrightarrow>
   typed (entries (active_cache (snd (active_read M D ao k))))"
  using active_read_entries [of D ao k] by (metis typed_le typed_upd)

lemma reach_typed: "overlay_reach M D db \<Longrightarrow> typed (entries (overlay db))"
proof (induction rule: overlay_reach.induct)
  case (reach_active_read db d k)
  then show ?case
    by (simp add: active_read_typed create_overlay_def active_overlay_new_def)
next
  case (reach_pending db)
  then show ?case
    using typed_le [OF _ pending_entries] by (simp add: overlay_run_pending_tasks_def)
qed (simp_all add: overlay_default_def overlay_new_def overlay_new_with_len_def new_entries
    overlay_read_typed overlay_commit_def commit_typed overlay_invalidate_all_def
    replace_underlying_def invalidate_entries active_commit_def create_overlay_def
    active_overlay_new_def)

end

text \<open>The entries a run of reads can leave: entries it started from, and answers of the database.\<close>

definition sourced :: "'e db_ref option \<Rightarrow> (table_key \<rightharpoonup> table_value) \<Rightarrow> (table_key \<rightharpoonup> table_value) \<Rightarrow> bool" where
  "sourced u m0 m \<longleftrightarrow> (\<forall>k v. m k = Some v \<longrightarrow> m0 k = Some v \<or> hit_answer k v = miss_answer u k)"

lemma sourced_refl: "sourced u m m"
  by (simp add: sourced_def)

lemma sourced_le: "sourced u m0 m' \<Longrightarrow> m \<subseteq>\<^sub>m m' \<Longrightarrow> sourced u m0 m"
  unfolding sourced_def map_le_def by (metis domI)

lemma sourced_upd: "sourced u m0 m \<Longrightarrow> hit_answer k v = miss_answer u k \<Longrightarrow> sourced u m0 (m(k \<mapsto> v))"
  by (simp add: sourced_def)

context moka_cache
begin

lemma overlay_read_sourced:
  "sourced (underlying_db db) m0 (entries (overlay db)) \<Longrightarrow>
   sourced (underlying_db db) m0 (entries (overlay (snd (overlay_read M db k))))"
  using overlay_read_entries [of db k] by (metis sourced_le sourced_upd)

lemma overlay_reads_sources:
  assumes "sourced (underlying_db db0) (entries (overlay db0)) (entries (overlay db))" and "underlying_db db = underlying_db db0"
  shows "list_all2 (\<lambda>k r. r = miss_answer (underlying_db db0) k \<or> (\<exists>v. entries (overlay db0) k = Some v \<and> r = hit_answer k v))
      ks (fst (run_reads (overlay_read M) db ks)) \<and> underlying_db (snd (run_reads (overlay_read M) db ks)) = underlying_db db0"
  using assms
proof (induction ks arbitrary: db)
  case (Cons k ks)
  have "fst (overlay_read M db k) = miss_answer (underlying_db db0) k \<or>
      (\<exists>v. entries (overlay db0) k = Some v \<and> fst (overlay_read M db k) = hit_answer k v)"
    using Cons.prems by (auto simp: overlay_read_answer sourced_def split: option.split)
  with Cons.IH [of "snd (overlay_read M db k)"] overlay_read_sourced [of db "entries (overlay db0)" k] Cons.prems
  show ?case by (simp add: overlay_read_underlying case_prod_beta Let_def)
qed simp

end

sublocale moka_cache \<subseteq> caching: transparent_reads "overlay_read M"
  "\<lambda>db. miss_answer (underlying_db db)" "\<lambda>db. coherent (underlying_db db) (entries (overlay db))"
  by unfold_locales
    (simp_all add: overlay_coherent_answer overlay_read_coherent overlay_read_underlying)

context moka_cache
begin

lemmas overlay_reads = caching.reads_answers

end

context moka_over_db
begin

lemma active_read_view:
  "database_view D (active_db (snd (active_read M D ao k))) = database_view D (active_db ao)"
  by (cases k) (auto simp: active_read_defs basic_view code_view storage_view block_hash_view
      split: option.splits sum.splits)

lemma active_read_coherent:
  "coherent (Some (database_view D (active_db ao))) (entries (active_cache ao)) \<Longrightarrow>
   coherent (Some (database_view D (active_db ao)))
     (entries (active_cache (snd (active_read M D ao k))))"
  using active_read_entries [of D ao k] by (metis coherent_le coherent_upd)

end

sublocale moka_over_db \<subseteq> active: transparent_reads "active_read M D"
  "\<lambda>ao. miss_answer (Some (database_view D (active_db ao)))"
  "\<lambda>ao. coherent (Some (database_view D (active_db ao))) (entries (active_cache ao))"
proof
  fix ao :: "('c, 'd) active_overlay" and k
  assume c: "coherent (Some (database_view D (active_db ao))) (entries (active_cache ao))"
  then show "fst (active_read M D ao k) = miss_answer (Some (database_view D (active_db ao))) k"
    by (auto simp: active_read_answer coherent_def split: option.splits)
  from c show "coherent (Some (database_view D (active_db (snd (active_read M D ao k)))))
      (entries (active_cache (snd (active_read M D ao k))))"
    by (simp add: active_read_view active_read_coherent)
qed (simp add: active_read_view)

context moka_over_db
begin

lemmas active_reads = active.reads_answers

end

lemma map_of_take_le: "map_of (take n xs) \<subseteq>\<^sub>m map_of xs"
proof -
  have "map_of (take n xs) \<subseteq>\<^sub>m map_of (drop n xs) ++ map_of (take n xs)" by simp
  then show ?thesis by (metis append_take_drop_id map_of_append)
qed

lemma map_of_filter_key: "map_of (filter (\<lambda>e. fst e \<noteq> k) xs) = (map_of xs)(k := None)"
  by (induction xs) (auto simp: fun_eq_iff)

lemma fifo_insert_le:
  "map_of (take n ((k, v) # filter (\<lambda>e. fst e \<noteq> k) xs)) \<subseteq>\<^sub>m (map_of xs)(k \<mapsto> v)"
  using map_of_take_le [of n "(k, v) # filter (\<lambda>e. fst e \<noteq> k) xs"] by (simp add: map_of_filter_key)

interpretation fifo_cache: moka_over_db fifo_ops "\<lambda>c. map_of (snd c)" mock_database_ops
  by unfold_locales (simp_all add: fifo_ops_def fifo_insert_le case_prod_beta)

section \<open>Properties\<close>

text \<open>C37. What reads through the cache answer.  In any sequence of reads, and whatever the cache evicts in
  between, every answer is the underlying database's own or that of the entry the overlay already
  held for the key when the sequence began (a committed value, or one of a replaced database); no read ever answers with
  anything else.  So an overlay whose entries all agree with the underlying database, as an empty one's do, is transparent:
  the answers are exactly the database's, and the overlay stays in agreement with it.\<close>

theorem overlay_reads_transparent:
  assumes "moka_cache M entries"
  shows "list_all2 (\<lambda>k r. r = miss_answer (underlying_db db) k \<or> (\<exists>v. entries (overlay db) k = Some v \<and> r = hit_answer k v))
      ks (fst (run_reads (overlay_read M) db ks)) \<and>
    underlying_db (snd (run_reads (overlay_read M) db ks)) = underlying_db db \<and>
    (coherent (underlying_db db) (entries (overlay db)) \<longrightarrow>
      fst (run_reads (overlay_read M) db ks) = map (miss_answer (underlying_db db)) ks \<and>
      coherent (underlying_db db) (entries (overlay (snd (run_reads (overlay_read M) db ks)))))"
  using moka_cache.overlay_reads [OF assms, of db ks] moka_cache.overlay_reads_sources [OF assms, of db db ks]
  by (auto simp: sourced_refl)

text \<open>An empty cache that holds one entry.\<close>

theorem overlay_reads_transparent_witness:
  "fst (run_reads (overlay_read fifo_ops)
      (overlay_new fifo_ops (Some (database_view mock_database_ops
        (mock_insert_storage mock_new 5 3 77))) 1)
      [KStorage 5 3, KStorage 5 4, KStorage 5 3, KBasic 5]) =
   map (miss_answer (Some (database_view mock_database_ops (mock_insert_storage mock_new 5 3 77))))
      [KStorage 5 3, KStorage 5 4, KStorage 5 3, KBasic 5]"
  using overlay_reads_transparent [OF fifo_cache.moka_cache_axioms, where
      db = "overlay_new fifo_ops (Some (database_view mock_database_ops
        (mock_insert_storage mock_new 5 3 77))) 1" and
      ks = "[KStorage 5 3, KStorage 5 4, KStorage 5 3, KBasic 5]"]
  by (simp add: overlay_new_def fifo_cache.new_entries)

text \<open>The active overlay is transparent too: over a database whose reads do not change what
  it answers, any sequence of reads through a coherent shared cache returns the database's own
  answers, although every miss mutates the cache and the database's bookkeeping.\<close>

lemma active_reads_transparent:
  assumes "moka_over_db M entries D"
    and "coherent (Some (database_view D (active_db ao))) (entries (active_cache ao))"
  shows "fst (run_reads (active_read M D) ao ks) =
    map (miss_answer (Some (database_view D (active_db ao)))) ks"
  using moka_over_db.active_reads [OF assms] by blast

text \<open>C38. No read of an overlay ever panics on an \<^verbatim>\<open>unwrap\<close>: in every state that reads, commits,
  evictions, invalidations, replaced databases and active overlays on the same cache can reach,
  the value cached under a key has the key's kind.\<close>

theorem overlay_never_panics:
  assumes "moka_cache M entries" and "overlay_reach M D db"
  shows "\<not> panics (fst (overlay_read M db k)) \<and>
    \<not> panics (fst (active_read M D (create_overlay db d) k))"
proof -
  have "typed (entries (overlay db))"
    using assms by (rule moka_cache.reach_typed)
  then show ?thesis
    by (auto simp: moka_cache.overlay_read_answer [OF assms(1)]
        moka_cache.active_read_answer [OF assms(1)] create_overlay_def active_overlay_new_def
        typed_def typed_hit_no_panic miss_no_panic split: option.splits)
qed

theorem overlay_never_panics_witness:
  "\<not> panics (fst (overlay_read fifo_ops
     (overlay_commit fifo_ops (overlay_new fifo_ops None 4)
        [(5, \<lparr>acc_info = \<lparr>info_balance = 1, info_nonce = 0, info_code_hash = 9, info_code = Some [1]\<rparr>,
          acc_storage = [(3, \<lparr>original_value = 9, present_value = 4, is_cold = False\<rparr>)],
          acc_status = account_status_touched\<rparr>)]) (KStorage 5 3)))"
  by (rule overlay_never_panics [OF fifo_cache.moka_cache_axioms, where D = mock_database_ops,
        THEN conjunct1])
    (intro overlay_reach.intros)

text \<open>A slot committed to the overlay reads back its present value for as long as the cache
  holds it; once evicted, the read falls through to the underlying database.\<close>

lemma overlay_commit_storage:
  assumes "moka_cache M entries"
    and "hm_ok changes" and "hm_get changes a = Some acct" and "hm_ok (acc_storage acct)"
    and "is_touched acct" and "hm_get (acc_storage acct) slot = Some s"
  shows "fst (overlay_storage_ref M (overlay_commit M db changes) a slot) =
    (if overlay_is_cached M (overlay_commit M db changes) (KStorage a slot)
     then Inr (present_value s)
     else (case underlying_db db of
         None \<Rightarrow> Inr 0
       | Some u \<Rightarrow> map_err (\<lambda>_. NotFoundError) (storage_ref u a slot)))"
  using moka_cache.commit_cached_storage(1) [OF assms(1-5), where c = "overlay db" and slot = slot]
    assms(6)
  by (auto simp: moka_cache.storage_ref_answer [OF assms(1)] overlay_is_cached_def
      moka_cache.contains_entries [OF assms(1)] overlay_commit_def split: option.splits)

text \<open>Unlike the fork, the overlay's commit does not clear the storage of a self-destructed
  account: a slot that was cached before and is still cached afterwards keeps its old value, where
  a fork over the same state reads zero.\<close>

lemma overlay_commit_ignores_selfdestruct:
  assumes "moka_cache M entries"
    and "is_touched dead" and "is_selfdestructed dead" and "acc_storage dead = []"
    and "entries (overlay db) (KStorage a slot) = Some (VStorage (b256_of_u256 v))"
    and "overlay_is_cached M (overlay_commit M db [(a, dead)]) (KStorage a slot)"
  shows "fst (overlay_storage_ref M (overlay_commit M db [(a, dead)]) a slot) = Inr v \<and>
    fork_storage_ref (fork_commit (overlay_fork M db) [(a, dead)]) a slot = Inr 0"
proof -
  have "fst (overlay_storage_ref M (overlay_commit M db [(a, dead)]) a slot) = Inr v"
    using moka_cache.commit_cached_storage(1) [OF assms(1), of "[(a, dead)]" a dead "overlay db" slot]
      assms(2-6)
    by (auto simp: moka_cache.storage_ref_answer [OF assms(1)] overlay_is_cached_def
        moka_cache.contains_entries [OF assms(1)] overlay_commit_def split: option.splits)
  moreover have "fork_storage_ref (fork_commit (overlay_fork M db) [(a, dead)]) a slot = Inr 0"
    using assms(2,3) by (simp add: fork_commit_storage_gen committed_storage_def)
  ultimately show ?thesis ..
qed

end
