(* ===== verification/MultiFork.thy ===== *)
theory MultiFork
  imports ForkDb
begin

text \<open>
  \<^verbatim>\<open>src/db/multi_fork_db.rs\<close>: the two states an assertion can look at, before and after the
  transaction.  The active fork is a \<open>fork_db\<close> whose inner database is swapped on every switch; the
  other fork is parked in \<open>inactive_forks\<close> with its journaled state.  The invariant
  \<open>mfd_inv\<close> says exactly the other fork is parked; \<open>db_of_fork\<close> reads off which database stands
  behind each fork.  The lemmas show that a switch never fails, that it never confuses the
  two databases, what it carries over in the journaled state, and that a round trip restores
  everything but the persistent accounts.
\<close>

section \<open>State\<close>

definition CALLER :: address where "CALLER = 0x1A4"

definition ASSERTION_CONTRACT :: address where
  "ASSERTION_CONTRACT = 0x63f9abbe8aa6ba1261ef3b0cbfb25a5ff8eeed10"

definition PRECOMPILE_ADDRESS :: address where
  "PRECOMPILE_ADDRESS = 0x4461812e00718ff8D80929E3bF595AEaaa7b881E"

definition DEFAULT_PERSISTENT_ACCOUNTS :: "address list" where
  "DEFAULT_PERSISTENT_ACCOUNTS = [ASSERTION_CONTRACT, CALLER, PRECOMPILE_ADDRESS]"

record 'e fork =
  parked_db :: "'e db_ref"
  parked_journaled_state :: "journaled_state option"

datatype fork_id = PreTx | PostTx

record 'e multi_fork_db =
  mfd_active_db :: "'e fork_db"
  active_fork_id :: fork_id
  inactive_forks :: "fork_id \<rightharpoonup> 'e fork"

datatype fork_error = ForkNotFound fork_id

definition multi_fork_new :: "'e db_ref \<Rightarrow> 'e db_ref \<Rightarrow> 'e multi_fork_db" where
  "multi_fork_new pre_tx_db post_tx_db =
     \<lparr>mfd_active_db = fork_new post_tx_db, active_fork_id = PostTx,
      inactive_forks = [PreTx \<mapsto> \<lparr>parked_db = pre_tx_db, parked_journaled_state = None\<rparr>]\<rparr>"

section \<open>Switching\<close>

definition merge_journaled_state_data ::
  "address \<Rightarrow> journaled_state \<Rightarrow> journaled_state \<Rightarrow> journaled_state" where
  "merge_journaled_state_data a active_js fork_js = (case hm_get (js_state active_js) a of
       Some acc \<Rightarrow>
         let acc' = (case hm_get (js_state fork_js) a of
               Some fork_account \<Rightarrow>
                 acc\<lparr>acc_storage := hm_extend (acc_storage fork_account) (acc_storage acc)\<rparr>
             | None \<Rightarrow> acc)
         in fork_js\<lparr>js_state := hm_insert a acc' (js_state fork_js)\<rparr>
     | None \<Rightarrow> fork_js)"

function pad_journal :: "nat \<Rightarrow> journal_entry list list \<Rightarrow> journal_entry list list" where
  "pad_journal n j = (if n > length j then pad_journal n (j @ [[]]) else j)"
  by pat_completeness auto
termination
  by (relation "measure (\<lambda>(n, j). n - length j)") auto

declare pad_journal.simps [simp del]

definition update_journaled_state ::
  "address list \<Rightarrow> journaled_state \<Rightarrow> journaled_state \<Rightarrow> journaled_state" where
  "update_journaled_state accounts active_js target_js =
     (let t = fold (\<lambda>a t. merge_journaled_state_data a active_js t) accounts target_js
      in t\<lparr>js_journal := pad_journal (length (js_journal active_js)) (js_journal t),
           js_depth := js_depth active_js\<rparr>)"

definition switch_fork :: "'e multi_fork_db \<Rightarrow> fork_id \<Rightarrow> journaled_state \<Rightarrow> journaled_state \<Rightarrow>
    (fork_error, 'e multi_fork_db \<times> journaled_state) result" where
  "switch_fork mfd fork_id active_js init_js =
     (if fork_id = active_fork_id mfd then Inr (mfd, active_js)
      else result_bind (ok_or (ForkNotFound fork_id) (inactive_forks mfd fork_id)) (\<lambda>target_fork.
        let target_js = (case parked_journaled_state target_fork of
                Some js \<Rightarrow> js | None \<Rightarrow> init_js);
            target_js' = update_journaled_state DEFAULT_PERSISTENT_ACCOUNTS active_js target_js;
            (prev_fork_db, active_db') = replace_inner_db (mfd_active_db mfd) (parked_db target_fork)
        in Inr (\<lparr>mfd_active_db = active_db', active_fork_id = fork_id,
                 inactive_forks = ((inactive_forks mfd)(fork_id := None))(active_fork_id mfd \<mapsto>
                   \<lparr>parked_db = prev_fork_db, parked_journaled_state = Some active_js\<rparr>)\<rparr>,
                target_js')))"

section \<open>Reads and commits go to the active fork\<close>

definition mfd_basic_ref :: "'e multi_fork_db \<Rightarrow> address \<Rightarrow> ('e, account_info option) result" where
  "mfd_basic_ref mfd a = fork_basic_ref (mfd_active_db mfd) a"

definition mfd_storage_ref :: "'e multi_fork_db \<Rightarrow> address \<Rightarrow> u256 \<Rightarrow> ('e, u256) result" where
  "mfd_storage_ref mfd a slot = fork_storage_ref (mfd_active_db mfd) a slot"

definition mfd_code_by_hash_ref :: "'e multi_fork_db \<Rightarrow> b256 \<Rightarrow> ('e, bytecode) result" where
  "mfd_code_by_hash_ref mfd h = fork_code_by_hash_ref (mfd_active_db mfd) h"

definition mfd_block_hash_ref :: "'e multi_fork_db \<Rightarrow> u64 \<Rightarrow> ('e, b256) result" where
  "mfd_block_hash_ref mfd n = fork_block_hash_ref (mfd_active_db mfd) n"

definition mfd_commit :: "'e multi_fork_db \<Rightarrow> evm_state \<Rightarrow> 'e multi_fork_db" where
  "mfd_commit mfd changes = mfd\<lparr>mfd_active_db := fork_commit (mfd_active_db mfd) changes\<rparr>"

section \<open>Invariant and reachable states\<close>

fun other_fork :: "fork_id \<Rightarrow> fork_id" where
  "other_fork PreTx = PostTx"
| "other_fork PostTx = PreTx"

definition mfd_inv :: "'e multi_fork_db \<Rightarrow> bool" where
  "mfd_inv mfd \<longleftrightarrow> dom (inactive_forks mfd) = {other_fork (active_fork_id mfd)}"

definition db_of_fork :: "'e multi_fork_db \<Rightarrow> fork_id \<Rightarrow> 'e db_ref option" where
  "db_of_fork mfd f = (if f = active_fork_id mfd then Some (inner_db (mfd_active_db mfd))
     else map_option parked_db (inactive_forks mfd f))"

definition tx_states :: "'e db_ref \<Rightarrow> 'e db_ref \<Rightarrow> fork_id \<Rightarrow> 'e db_ref" where
  "tx_states pre post f = (case f of PreTx \<Rightarrow> pre | PostTx \<Rightarrow> post)"

inductive mfd_reach :: "'e db_ref \<Rightarrow> 'e db_ref \<Rightarrow> 'e multi_fork_db \<Rightarrow> journaled_state \<Rightarrow> bool"
  for pre post where
  mfd_start: "mfd_reach pre post (multi_fork_new pre post) js"
| mfd_commits: "mfd_reach pre post mfd js \<Longrightarrow> mfd_reach pre post (mfd_commit mfd changes) js"
| mfd_account: "mfd_reach pre post mfd js \<Longrightarrow>
    mfd_reach pre post (mfd\<lparr>mfd_active_db := insert_account_info (mfd_active_db mfd) a i\<rparr>) js"
| mfd_cut: "mfd_reach pre post mfd js \<Longrightarrow>
    mfd_reach pre post (mfd\<lparr>mfd_active_db := fork_dont_read a (mfd_active_db mfd)\<rparr>) js"
| mfd_runs: "mfd_reach pre post mfd js \<Longrightarrow> mfd_reach pre post mfd js'"
| mfd_switch: "mfd_reach pre post mfd js \<Longrightarrow> switch_fork mfd f js init = Inr (mfd', js') \<Longrightarrow>
    mfd_reach pre post mfd' js'"

section \<open>Lemmas\<close>

lemma other_fork_simps [simp]:
  "other_fork f \<noteq> f" "f \<noteq> other_fork f" "other_fork (other_fork f) = f"
  by (cases f; simp)+

lemma fork_id_cases: "f = g \<or> f = other_fork g"
  by (cases f; cases g) simp_all

lemma pad_journal_append: "pad_journal n j = j @ replicate (n - length j) []"
proof (induction n j rule: pad_journal.induct)
  case (1 n j)
  show ?case
  proof (cases "n > length j")
    case True
    then have "pad_journal n j = pad_journal n (j @ [[]])"
      by (subst pad_journal.simps) simp
    also have "\<dots> = j @ [] # replicate (n - Suc (length j)) []"
      using 1 [OF True] by simp
    also have "\<dots> = j @ replicate (Suc (n - Suc (length j))) []" by simp
    finally show ?thesis using True by (simp add: Suc_diff_Suc)
  qed (subst pad_journal.simps, simp)
qed

lemma merge_data_get:
  "hm_get (js_state (merge_journaled_state_data a active_js fork_js)) b =
     (if b = a then (case hm_get (js_state active_js) a of
          None \<Rightarrow> hm_get (js_state fork_js) a
        | Some acc \<Rightarrow> Some (merged (hm_get (js_state fork_js) a) acc))
      else hm_get (js_state fork_js) b)"
  by (auto simp: merge_journaled_state_data_def merged_def Let_def split: option.splits)

lemma merge_data_frame [simp]:
  "js_journal (merge_journaled_state_data a active_js fork_js) = js_journal fork_js"
  "js_logs (merge_journaled_state_data a active_js fork_js) = js_logs fork_js"
  by (simp_all add: merge_journaled_state_data_def Let_def split: option.splits)

lemma merge_fold_get:
  "distinct accounts \<Longrightarrow>
   hm_get (js_state (fold (\<lambda>a t. merge_journaled_state_data a active_js t) accounts t)) b =
     (case if b \<in> set accounts then hm_get (js_state active_js) b else None of
        None \<Rightarrow> hm_get (js_state t) b
      | Some acc \<Rightarrow> Some (merged (hm_get (js_state t) b) acc))"
proof (induction accounts arbitrary: t)
  case (Cons a accounts)
  then show ?case
    using Cons.IH [of "merge_journaled_state_data a active_js t"]
    by (auto simp: merge_data_get split: option.splits)
qed simp

lemma merge_fold_frame [simp]:
  "js_journal (fold (\<lambda>a t. merge_journaled_state_data a active_js t) accounts t) = js_journal t"
  "js_logs (fold (\<lambda>a t. merge_journaled_state_data a active_js t) accounts t) = js_logs t"
  by (induction accounts arbitrary: t) simp_all

lemma update_js_get:
  "distinct accounts \<Longrightarrow> hm_get (js_state (update_journaled_state accounts active_js t)) b =
     (case if b \<in> set accounts then hm_get (js_state active_js) b else None of
        None \<Rightarrow> hm_get (js_state t) b
      | Some acc \<Rightarrow> Some (merged (hm_get (js_state t) b) acc))"
  by (simp add: update_journaled_state_def Let_def merge_fold_get)

lemma update_js_simps [simp]:
  "js_depth (update_journaled_state accounts active_js t) = js_depth active_js"
  "js_logs (update_journaled_state accounts active_js t) = js_logs t"
  "js_journal (update_journaled_state accounts active_js t) =
     js_journal t @ replicate (length (js_journal active_js) - length (js_journal t)) []"
  by (simp_all add: update_journaled_state_def Let_def pad_journal_append)

lemma distinct_persistent [simp]: "distinct DEFAULT_PERSISTENT_ACCOUNTS"
  by (simp add: DEFAULT_PERSISTENT_ACCOUNTS_def ASSERTION_CONTRACT_def CALLER_def
      PRECOMPILE_ADDRESS_def)

lemma mfd_inv_new [simp]: "mfd_inv (multi_fork_new pre post)"
  by (simp add: mfd_inv_def multi_fork_new_def)

lemma mfd_inv_frame [simp]: "mfd_inv (mfd\<lparr>mfd_active_db := db\<rparr>) = mfd_inv mfd"
  by (simp add: mfd_inv_def)

lemma mfd_inv_parked:
  "mfd_inv mfd \<Longrightarrow> \<exists>fk. inactive_forks mfd = [other_fork (active_fork_id mfd) \<mapsto> fk]"
  by (simp add: mfd_inv_def dom_eq_singleton_conv)

text \<open>The one shape a successful switch to the other fork has.\<close>

lemma switch_other:
  assumes "inactive_forks mfd = [other_fork (active_fork_id mfd) \<mapsto> fk]"
  shows "switch_fork mfd (other_fork (active_fork_id mfd)) js init = Inr
    (\<lparr>mfd_active_db = (mfd_active_db mfd)\<lparr>inner_db := parked_db fk\<rparr>,
      active_fork_id = other_fork (active_fork_id mfd),
      inactive_forks = [active_fork_id mfd \<mapsto>
        \<lparr>parked_db = inner_db (mfd_active_db mfd), parked_journaled_state = Some js\<rparr>]\<rparr>,
     update_journaled_state DEFAULT_PERSISTENT_ACCOUNTS js
       (case parked_journaled_state fk of None \<Rightarrow> init | Some js' \<Rightarrow> js'))"
  using assms by (simp add: switch_fork_def replace_inner_db_def Let_def fun_eq_iff)

lemma switch_same [simp]: "switch_fork mfd (active_fork_id mfd) js init = Inr (mfd, js)"
  by (simp add: switch_fork_def)

lemma switch_cases:
  assumes "mfd_inv mfd" and "switch_fork mfd f js init = Inr (mfd', js')"
  obtains (same) "f = active_fork_id mfd" "mfd' = mfd" "js' = js"
  | (other) fk where "f = other_fork (active_fork_id mfd)"
      "inactive_forks mfd = [other_fork (active_fork_id mfd) \<mapsto> fk]"
      "mfd' = \<lparr>mfd_active_db = (mfd_active_db mfd)\<lparr>inner_db := parked_db fk\<rparr>,
        active_fork_id = other_fork (active_fork_id mfd),
        inactive_forks = [active_fork_id mfd \<mapsto>
          \<lparr>parked_db = inner_db (mfd_active_db mfd), parked_journaled_state = Some js\<rparr>]\<rparr>"
      "js' = update_journaled_state DEFAULT_PERSISTENT_ACCOUNTS js
         (case parked_journaled_state fk of None \<Rightarrow> init | Some js' \<Rightarrow> js')"
proof -
  obtain fk where fk: "inactive_forks mfd = [other_fork (active_fork_id mfd) \<mapsto> fk]"
    using mfd_inv_parked [OF assms(1)] by blast
  from fork_id_cases [of f "active_fork_id mfd"] show thesis
  proof
    assume "f = active_fork_id mfd"
    with assms(2) show thesis by (intro same) simp_all
  next
    assume f: "f = other_fork (active_fork_id mfd)"
    from assms(2) have "mfd' = \<lparr>mfd_active_db = (mfd_active_db mfd)\<lparr>inner_db := parked_db fk\<rparr>,
        active_fork_id = other_fork (active_fork_id mfd),
        inactive_forks = [active_fork_id mfd \<mapsto>
          \<lparr>parked_db = inner_db (mfd_active_db mfd), parked_journaled_state = Some js\<rparr>]\<rparr>"
      and "js' = update_journaled_state DEFAULT_PERSISTENT_ACCOUNTS js
         (case parked_journaled_state fk of None \<Rightarrow> init | Some js' \<Rightarrow> js')"
      unfolding f switch_other [OF fk] by simp_all
    with f fk show thesis by (rule other)
  qed
qed

lemma switch_inv:
  assumes "mfd_inv mfd" "switch_fork mfd f js init = Inr (mfd', js')"
  shows "mfd_inv mfd'"
  using assms by (cases rule: switch_cases) (use assms(1) in \<open>simp_all add: mfd_inv_def\<close>)

lemma db_of_fork_frame [simp]:
  "inner_db db = inner_db (mfd_active_db mfd) \<Longrightarrow>
   db_of_fork (mfd\<lparr>mfd_active_db := db\<rparr>) f = db_of_fork mfd f"
  by (simp add: db_of_fork_def)

lemma switch_db_of_fork:
  assumes "mfd_inv mfd" "switch_fork mfd f js init = Inr (mfd', js')"
  shows "db_of_fork mfd' g = db_of_fork mfd g"
  using assms
  by (cases rule: switch_cases) (use fork_id_cases [of g "active_fork_id mfd"] in
      \<open>auto simp: db_of_fork_def\<close>)

lemma reach_inv: "mfd_reach pre post mfd js \<Longrightarrow> mfd_inv mfd"
  by (induction rule: mfd_reach.induct) (auto simp: mfd_commit_def switch_inv)

lemma reach_db_of_fork: "mfd_reach pre post mfd js \<Longrightarrow> db_of_fork mfd f = Some (tx_states pre post f)"
proof (induction rule: mfd_reach.induct)
  case (mfd_start js)
  show ?case
    by (cases f) (simp_all add: db_of_fork_def multi_fork_new_def tx_states_def fork_new_def)
next
  case (mfd_switch mfd js f' init mfd' js')
  then show ?case
    using switch_db_of_fork [OF reach_inv [OF mfd_switch.hyps(1)] mfd_switch.hyps(2), of f] by simp
qed (simp_all add: mfd_commit_def insert_account_info_def)

lemma db_of_active: "db_of_fork mfd (active_fork_id mfd) = Some (inner_db (mfd_active_db mfd))"
  by (simp add: db_of_fork_def)

section \<open>Properties\<close>

text \<open>In every reachable state of the two forks, switching to either fork succeeds (the
  \<^verbatim>\<open>ForkNotFound\<close> branch is dead), makes that fork active and keeps the invariant.\<close>

lemma switch_fork_never_fails:
  assumes "mfd_reach pre post mfd js"
  shows "\<exists>mfd' js'. switch_fork mfd f js init = Inr (mfd', js') \<and>
    active_fork_id mfd' = f \<and> mfd_inv mfd'"
proof -
  from assms have inv: "mfd_inv mfd" by (rule reach_inv)
  then obtain fk where fk: "inactive_forks mfd = [other_fork (active_fork_id mfd) \<mapsto> fk]"
    using mfd_inv_parked by blast
  from fork_id_cases [of f "active_fork_id mfd"] show ?thesis
  proof
    assume "f = active_fork_id mfd"
    with inv show ?thesis by simp
  next
    assume f: "f = other_fork (active_fork_id mfd)"
    show ?thesis unfolding f switch_other [OF fk] by (simp add: mfd_inv_def)
  qed
qed

text \<open>Whatever sequence of commits, account insertions and fork switches an assertion makes, an
  address the assertion layer does not shadow is read from the state before the transaction while
  the pre-state fork is active, and from the state after it while the post-state fork is.\<close>

lemma active_fork_reads_its_state:
  assumes "mfd_reach pre post mfd js"
    and "fork_storage (mfd_active_db mfd) a = None" and "fork_basic (mfd_active_db mfd) a = None"
  shows "mfd_storage_ref mfd a slot =
      storage_ref (case active_fork_id mfd of PreTx \<Rightarrow> pre | PostTx \<Rightarrow> post) a slot \<and>
    mfd_basic_ref mfd a = basic_ref (case active_fork_id mfd of PreTx \<Rightarrow> pre | PostTx \<Rightarrow> post) a"
proof -
  have "inner_db (mfd_active_db mfd) = tx_states pre post (active_fork_id mfd)"
    using reach_db_of_fork [OF assms(1), of "active_fork_id mfd"] by (simp add: db_of_active)
  with assms(2,3) show ?thesis
    by (simp add: mfd_storage_ref_def mfd_basic_ref_def fork_storage_ref_def fork_basic_ref_def
        tx_states_def)
qed

text \<open>C25. What a switch to the other fork does to the journaled state, field by field.  A persistent
  account the active fork has carries over (its storage extends what the target had), every other
  account, persistent or not, is the target's own; the logs are the target's; the call depth is the active
  fork's; and the journal is the target's, padded with empty entries until it is at least as long as the active
  one, so that the active checkpoint exists in it.  The state that is left is parked as it is.\<close>

theorem switch_fork_journaled_state:
  assumes "mfd_inv mfd" and "switch_fork mfd (other_fork (active_fork_id mfd)) js init = Inr (mfd', js')"
    and "target = (case parked_journaled_state (the (inactive_forks mfd (other_fork (active_fork_id mfd))))
      of None \<Rightarrow> init | Some parked \<Rightarrow> parked)"
  shows "(\<forall>a \<in> set DEFAULT_PERSISTENT_ACCOUNTS. \<forall>acc. hm_get (js_state js) a = Some acc \<longrightarrow>
        hm_get (js_state js') a = Some (case hm_get (js_state target) a of
            None \<Rightarrow> acc
          | Some t \<Rightarrow> acc\<lparr>acc_storage := hm_extend (acc_storage t) (acc_storage acc)\<rparr>)) \<and>
    (\<forall>a. a \<notin> set DEFAULT_PERSISTENT_ACCOUNTS \<or> hm_get (js_state js) a = None \<longrightarrow>
        hm_get (js_state js') a = hm_get (js_state target) a) \<and>
    js_logs js' = js_logs target \<and> js_depth js' = js_depth js \<and>
    js_journal js' = js_journal target @ replicate (length (js_journal js) - length (js_journal target)) [] \<and>
    (\<exists>db. inactive_forks mfd' (active_fork_id mfd) = Some \<lparr>parked_db = db, parked_journaled_state = Some js\<rparr>)"
  using assms(1,2)
proof (cases rule: switch_cases)
  case (other fk)
  then have t: "target = (case parked_journaled_state fk of None \<Rightarrow> init | Some js' \<Rightarrow> js')"
    using assms(3) by simp
  show ?thesis
    unfolding other(3,4) t [symmetric]
    by (auto simp: update_js_get merged_def)
qed simp

text \<open>C24. A round trip restores: after switching to the other fork, any execution there, and
  switching back, the original fork's database and layer are in place, and every account that is
  not persistent has exactly the journaled state it had before.\<close>

theorem switch_fork_round_trip:
  assumes "mfd_inv mfd"
    and "switch_fork mfd (other_fork (active_fork_id mfd)) js init = Inr (mfd1, js1)"
    and "switch_fork mfd1 (active_fork_id mfd) js1' init' = Inr (mfd2, js2)"
  shows "mfd_active_db mfd2 = mfd_active_db mfd \<and> active_fork_id mfd2 = active_fork_id mfd \<and>
    (\<forall>a. a \<notin> set DEFAULT_PERSISTENT_ACCOUNTS \<longrightarrow> hm_get (js_state js2) a = hm_get (js_state js) a)"
  using assms(1,2)
proof (cases rule: switch_cases)
  case (other fk)
  let ?old = "\<lparr>parked_db = inner_db (mfd_active_db mfd), parked_journaled_state = Some js\<rparr>"
  have "inactive_forks mfd1 = [other_fork (active_fork_id mfd1) \<mapsto> ?old]"
    and id: "other_fork (active_fork_id mfd1) = active_fork_id mfd"
    and db: "mfd_active_db mfd1 = (mfd_active_db mfd)\<lparr>inner_db := parked_db fk\<rparr>"
    unfolding other(3) by simp_all
  from switch_other [OF this(1), of js1' init'] assms(3) show ?thesis
    unfolding id by (auto simp: db update_js_get)
qed simp

theorem switch_fork_journaled_state_witness:
  "js_depth (snd (projr (switch_fork (multi_fork_new
      \<lparr>basic_ref = \<lambda>_. Inr None, storage_ref = \<lambda>_ _. Inr 1,
         code_by_hash_ref = \<lambda>_. Inl (), block_hash_ref = \<lambda>_. Inl ()\<rparr>
      \<lparr>basic_ref = \<lambda>_. Inr None, storage_ref = \<lambda>_ _. Inr 2,
         code_by_hash_ref = \<lambda>_. Inl (), block_hash_ref = \<lambda>_. Inl ()\<rparr>)
      PreTx \<lparr>js_state = [], js_journal = [[]], js_depth = 3, js_logs = []\<rparr>
      \<lparr>js_state = [], js_journal = [], js_depth = 0, js_logs = []\<rparr>))) = 3"
proof -
  let ?m = "multi_fork_new
      \<lparr>basic_ref = \<lambda>_. Inr None, storage_ref = \<lambda>_ _. Inr 1,
         code_by_hash_ref = \<lambda>_. Inl (), block_hash_ref = \<lambda>_. Inl ()\<rparr>
      \<lparr>basic_ref = \<lambda>_. Inr None, storage_ref = \<lambda>_ _. Inr 2,
         code_by_hash_ref = \<lambda>_. Inl (), block_hash_ref = \<lambda>_. Inl ()\<rparr>"
  let ?js = "\<lparr>js_state = [], js_journal = [[]], js_depth = 3, js_logs = []\<rparr>"
  let ?init = "\<lparr>js_state = [], js_journal = [], js_depth = 0, js_logs = []\<rparr>"
  have id: "other_fork (active_fork_id ?m) = PreTx" by (simp add: multi_fork_new_def)
  obtain fk where fk: "inactive_forks ?m = [other_fork (active_fork_id ?m) \<mapsto> fk]"
    using mfd_inv_parked [OF mfd_inv_new] by blast
  obtain r where r: "switch_fork ?m PreTx ?js ?init = Inr r"
    using switch_other [OF fk, of ?js ?init] unfolding id by blast
  have "switch_fork ?m (other_fork (active_fork_id ?m)) ?js ?init = Inr (fst r, snd r)"
    unfolding id using r by simp
  from switch_fork_journaled_state [OF mfd_inv_new this refl]
  have "js_depth (snd r) = js_depth ?js" by blast
  with r show ?thesis by simp
qed

theorem switch_fork_round_trip_witness:
  "\<exists>mfd1 js1 mfd2 js2. switch_fork (multi_fork_new
      \<lparr>basic_ref = \<lambda>_. Inr None, storage_ref = \<lambda>_ _. Inr 1,
         code_by_hash_ref = \<lambda>_. Inl (), block_hash_ref = \<lambda>_. Inl ()\<rparr>
      \<lparr>basic_ref = \<lambda>_. Inr None, storage_ref = \<lambda>_ _. Inr 2,
         code_by_hash_ref = \<lambda>_. Inl (), block_hash_ref = \<lambda>_. Inl ()\<rparr>)
      PreTx \<lparr>js_state = [], js_journal = [[]], js_depth = 3, js_logs = []\<rparr>
      \<lparr>js_state = [], js_journal = [], js_depth = 0, js_logs = []\<rparr> = Inr (mfd1, js1) \<and>
    switch_fork mfd1 PostTx js1 \<lparr>js_state = [], js_journal = [], js_depth = 0, js_logs = []\<rparr>
      = Inr (mfd2, js2) \<and> active_fork_id mfd2 = PostTx"
proof -
  let ?m = "multi_fork_new
      \<lparr>basic_ref = \<lambda>_. Inr None, storage_ref = \<lambda>_ _. Inr 1,
         code_by_hash_ref = \<lambda>_. Inl (), block_hash_ref = \<lambda>_. Inl ()\<rparr>
      \<lparr>basic_ref = \<lambda>_. Inr None, storage_ref = \<lambda>_ _. Inr 2,
         code_by_hash_ref = \<lambda>_. Inl (), block_hash_ref = \<lambda>_. Inl ()\<rparr>"
  let ?js = "\<lparr>js_state = [], js_journal = [[]], js_depth = 3, js_logs = []\<rparr>"
  let ?init = "\<lparr>js_state = [], js_journal = [], js_depth = 0, js_logs = []\<rparr>"
  have id: "active_fork_id ?m = PostTx" by (simp add: multi_fork_new_def)
  obtain fk where fk: "inactive_forks ?m = [other_fork (active_fork_id ?m) \<mapsto> fk]"
    using mfd_inv_parked [OF mfd_inv_new] by blast
  obtain m1 j1 where 1: "switch_fork ?m PreTx ?js ?init = Inr (m1, j1)"
    using switch_other [OF fk, of ?js ?init] unfolding id by simp
  then have "mfd_inv m1" using switch_inv [OF mfd_inv_new] by blast
  moreover from 1 have "active_fork_id m1 = PreTx"
    using switch_other [OF fk, of ?js ?init] unfolding id by simp
  ultimately obtain m2 j2 where 2: "switch_fork m1 PostTx j1 ?init = Inr (m2, j2)"
    using mfd_inv_parked [of m1] switch_other [of m1 _ j1 ?init] by fastforce
  have "switch_fork ?m (other_fork (active_fork_id ?m)) ?js ?init = Inr (m1, j1)"
    and "switch_fork m1 (active_fork_id ?m) j1 ?init = Inr (m2, j2)"
    unfolding id using 1 2 by simp_all
  from switch_fork_round_trip [OF mfd_inv_new this]
  have "active_fork_id m2 = active_fork_id ?m" by blast
  with 1 2 id show ?thesis by auto
qed

end
