(* ===== verification/Inspectors.thy ===== *)
theory Inspectors
  imports Primitives
begin

text \<open>
  The interface between the EVM and the crate's inspectors (\<^verbatim>\<open>src/inspectors/mod.rs\<close>).
  An inspector is the record of the hooks the EVM calls; the EVM's context is a type variable
  because the recording inspectors never look at it.  One execution, seen by an inspector, is a
  sequence of hook events, and \<open>run_events\<close> is what the sequence leaves in the inspector and in
  the context.  \<open>inspector_result_to_call_outcome\<close> turns the result of a handler into the
  outcome of the intercepted call.
\<close>

section \<open>Calls and their outcomes\<close>

datatype call_value = TransferValue u256 | ApparentValue u256

primrec call_value_get :: "call_value \<Rightarrow> u256" where
  "call_value_get (TransferValue v) = v"
| "call_value_get (ApparentValue v) = v"

record call_inputs =
  ci_input :: bytes
  ci_return_memory_offset :: "nat \<times> nat"
  ci_gas_limit :: u64
  ci_bytecode_address :: address
  ci_target_address :: address
  ci_caller :: address
  ci_value :: call_value
  ci_is_static :: bool

record create_inputs =
  cri_caller :: address
  cri_value :: u256
  cri_init_code :: bytes
  cri_gas_limit :: u64

record evm_gas =
  gas_limit_of :: u64
  gas_remaining :: u64
  gas_refunded :: int

datatype instruction_result = IrReturn | IrRevert | IrOther

record interpreter_result =
  ir_result :: instruction_result
  ir_output :: bytes
  ir_gas :: evm_gas

record call_outcome =
  co_result :: interpreter_result
  co_memory_offset :: "nat \<times> nat"

record create_outcome =
  cro_result :: interpreter_result
  cro_address :: "address option"

definition gas_new :: "u64 \<Rightarrow> evm_gas" where
  "gas_new limit = \<lparr>gas_limit_of = limit, gas_remaining = limit, gas_refunded = 0\<rparr>"

definition inspector_result_to_call_outcome ::
  "(string \<Rightarrow> bytes) \<Rightarrow> ('e \<Rightarrow> string) \<Rightarrow> ('e, bytes) result \<Rightarrow> evm_gas \<Rightarrow> nat \<times> nat \<Rightarrow> call_outcome" where
  "inspector_result_to_call_outcome abi_encode_error display result gas memory_offset =
     (case result of
        Inr output \<Rightarrow>
          \<lparr>co_result = \<lparr>ir_result = IrReturn, ir_output = output, ir_gas = gas\<rparr>,
           co_memory_offset = memory_offset\<rparr>
      | Inl e \<Rightarrow>
          \<lparr>co_result = \<lparr>ir_result = IrRevert, ir_output = abi_encode_error (display e), ir_gas = gas\<rparr>,
           co_memory_offset = memory_offset\<rparr>)"

text \<open>The selector a call's input names: its first four bytes, zero when the input is shorter.\<close>

definition selector_from_slice :: "bytes \<Rightarrow> fn_selector" where
  "selector_from_slice bs = of_nat (foldl (\<lambda>a b. a * 256 + unat b) 0 bs)"

definition input_selector :: "bytes \<Rightarrow> fn_selector" where
  "input_selector inp = (if length inp \<ge> 4 then selector_from_slice (take 4 inp) else 0)"

section \<open>Hooks and executions\<close>

record ('i, 'c) inspector =
  insp_initialize_interp :: "'i \<Rightarrow> 'c \<Rightarrow> 'i \<times> 'c"
  insp_step :: "'i \<Rightarrow> 'c \<Rightarrow> 'i \<times> 'c"
  insp_step_end :: "'i \<Rightarrow> 'c \<Rightarrow> 'i \<times> 'c"
  insp_call :: "'i \<Rightarrow> 'c \<Rightarrow> call_inputs \<Rightarrow> call_outcome option \<times> 'i \<times> 'c"
  insp_call_end :: "'i \<Rightarrow> 'c \<Rightarrow> call_inputs \<Rightarrow> call_outcome \<Rightarrow> call_outcome \<times> 'i \<times> 'c"
  insp_create :: "'i \<Rightarrow> 'c \<Rightarrow> create_inputs \<Rightarrow> create_outcome option \<times> 'i \<times> 'c"
  insp_create_end :: "'i \<Rightarrow> 'c \<Rightarrow> create_inputs \<Rightarrow> create_outcome \<Rightarrow> create_outcome \<times> 'i \<times> 'c"
  insp_selfdestruct :: "'i \<Rightarrow> 'c \<Rightarrow> address \<Rightarrow> address \<Rightarrow> u256 \<Rightarrow> 'i \<times> 'c"

datatype insp_event =
    EvInitializeInterp
  | EvStep
  | EvStepEnd
  | EvCall call_inputs
  | EvCallEnd call_inputs call_outcome
  | EvCreate create_inputs
  | EvCreateEnd create_inputs create_outcome
  | EvSelfdestruct address address u256

fun insp_apply :: "('i, 'c) inspector \<Rightarrow> insp_event \<Rightarrow> 'i \<times> 'c \<Rightarrow> 'i \<times> 'c" where
  "insp_apply I EvInitializeInterp (i, c) = insp_initialize_interp I i c"
| "insp_apply I EvStep (i, c) = insp_step I i c"
| "insp_apply I EvStepEnd (i, c) = insp_step_end I i c"
| "insp_apply I (EvCall inputs) (i, c) = snd (insp_call I i c inputs)"
| "insp_apply I (EvCallEnd inputs out) (i, c) = snd (insp_call_end I i c inputs out)"
| "insp_apply I (EvCreate inputs) (i, c) = snd (insp_create I i c inputs)"
| "insp_apply I (EvCreateEnd inputs out) (i, c) = snd (insp_create_end I i c inputs out)"
| "insp_apply I (EvSelfdestruct ct t v) (i, c) = insp_selfdestruct I i c ct t v"

definition run_events :: "('i, 'c) inspector \<Rightarrow> insp_event list \<Rightarrow> 'i \<times> 'c \<Rightarrow> 'i \<times> 'c" where
  "run_events I evs s = fold (insp_apply I) evs s"

fun event_calls :: "insp_event list \<Rightarrow> call_inputs list" where
  "event_calls [] = []"
| "event_calls (EvCall inputs # evs) = inputs # event_calls evs"
| "event_calls (_ # evs) = event_calls evs"

section \<open>Inspectors that only look at calls\<close>

text \<open>
  Both recording inspectors leave every hook but \<^verbatim>\<open>call\<close> empty, hand outcomes through unchanged
  and never touch the context.  The contract of such an inspector is its call handler; its state
  after an execution is the handler folded over the calls, in order.
\<close>

locale call_inspector =
  fixes I :: "('i, 'c) inspector" and handle :: "'i \<Rightarrow> call_inputs \<Rightarrow> 'i"
  assumes quiet_hooks:
      "insp_initialize_interp I i c = (i, c)" "insp_step I i c = (i, c)"
      "insp_step_end I i c = (i, c)" "insp_selfdestruct I i c ct t v = (i, c)"
    and quiet_call_end: "insp_call_end I i c inputs out = (out, i, c)"
    and quiet_create: "insp_create I i c cinputs = (None, i, c)"
    and quiet_create_end: "insp_create_end I i c cinputs cout = (cout, i, c)"
    and call_handled: "snd (insp_call I i c inputs) = (handle i inputs, c)"
begin

lemma apply_event:
  "insp_apply I ev (i, c) = (fold (\<lambda>inputs i. handle i inputs) (event_calls [ev]) i, c)"
  by (cases ev) (simp_all add: quiet_hooks quiet_call_end quiet_create quiet_create_end call_handled)

lemma run_events_fold:
  "run_events I evs (i, c) = (fold (\<lambda>inputs i. handle i inputs) (event_calls evs) i, c)"
proof (induction evs arbitrary: i)
  case (Cons ev evs)
  have "run_events I (ev # evs) (i, c) = run_events I evs (insp_apply I ev (i, c))"
    by (simp add: run_events_def)
  also have "\<dots> = (fold (\<lambda>inputs i. handle i inputs) (event_calls [ev] @ event_calls evs) i, c)"
    by (simp add: apply_event Cons.IH)
  also have "event_calls [ev] @ event_calls evs = event_calls (ev # evs)" by (cases ev) simp_all
  finally show ?case .
qed (simp add: run_events_def)

lemma context_untouched: "snd (run_events I evs (i, c)) = c"
  by (simp add: run_events_fold)

end

section \<open>Lemmas\<close>

lemma outcome_simps [simp]:
  "inspector_result_to_call_outcome enc disp (Inr out) gas mem =
     \<lparr>co_result = \<lparr>ir_result = IrReturn, ir_output = out, ir_gas = gas\<rparr>, co_memory_offset = mem\<rparr>"
  "inspector_result_to_call_outcome enc disp (Inl e) gas mem =
     \<lparr>co_result = \<lparr>ir_result = IrRevert, ir_output = enc (disp e), ir_gas = gas\<rparr>,
      co_memory_offset = mem\<rparr>"
  by (simp_all add: inspector_result_to_call_outcome_def)

lemma event_calls_append: "event_calls (evs @ evs') = event_calls evs @ event_calls evs'"
  by (induction evs rule: event_calls.induct) simp_all

lemma event_calls_map_EvCall [simp]: "event_calls (map EvCall cs) = cs"
  by (induction cs) simp_all

end
