(* ===== verification/Triggers.thy ===== *)
theory Triggers
  imports Inspectors
begin

text \<open>
  When an assertion runs: \<^verbatim>\<open>src/inspectors/trigger_recorder.rs\<close> records which assertion functions an
  assertion contract registers for which trigger, and \<^verbatim>\<open>src/inspectors/tracer.rs\<close> records the calls
  of a transaction and derives from them, and from the journal, the triggers it fired.
  Both are instances of the call inspector contract.  The ABI layer that \<^verbatim>\<open>sol!\<close> generates for
  \<^verbatim>\<open>ITriggerRecorder\<close> is a parameter: the selector and the decoder of each function.
\<close>

section \<open>The trigger recorder\<close>

definition TRIGGER_RECORDER :: address where
  "TRIGGER_RECORDER = 0x55BB9AD8Dc1EE06D47279fC2B23Cd755B7f2d326"

datatype trigger_type =
    Call fn_selector
  | AllCalls
  | BalanceChange
  | StorageChange b256
  | AllStorageChanges

record trigger_recorder =
  recorded_triggers :: "(trigger_type, fn_selector hash_set) hash_map"

datatype record_error = CallDecodeError string | FnSelectorNotFound

primrec record_error_display :: "record_error \<Rightarrow> string" where
  "record_error_display (CallDecodeError e) = ''Failed to decode call inputs''"
| "record_error_display FnSelectorNotFound = ''Fn selector not found''"

record itrigger_recorder_abi =
  registerCallTrigger_0_SELECTOR :: fn_selector
  registerCallTrigger_1_SELECTOR :: fn_selector
  registerStorageChangeTrigger_0_SELECTOR :: fn_selector
  registerStorageChangeTrigger_1_SELECTOR :: fn_selector
  registerBalanceChangeTrigger_SELECTOR :: fn_selector
  registerCallTrigger_0_decode :: "bytes \<Rightarrow> (string, fn_selector) result"
  registerCallTrigger_1_decode :: "bytes \<Rightarrow> (string, fn_selector \<times> fn_selector) result"
  registerStorageChangeTrigger_0_decode :: "bytes \<Rightarrow> (string, fn_selector) result"
  registerStorageChangeTrigger_1_decode :: "bytes \<Rightarrow> (string, fn_selector \<times> b256) result"
  registerBalanceChangeTrigger_decode :: "bytes \<Rightarrow> (string, fn_selector) result"

definition add_trigger :: "trigger_type \<Rightarrow> fn_selector \<Rightarrow> trigger_recorder \<Rightarrow> trigger_recorder" where
  "add_trigger t s tr =
     tr\<lparr>recorded_triggers := hm_entry t [] (hs_insert s) (recorded_triggers tr)\<rparr>"

definition record_trigger :: "itrigger_recorder_abi \<Rightarrow> trigger_recorder \<Rightarrow> call_inputs \<Rightarrow>
    (record_error, bytes) result \<times> trigger_recorder" where
  "record_trigger abi tr inputs =
     (let sel = input_selector (ci_input inputs); inp = ci_input inputs
      in if sel = registerCallTrigger_0_SELECTOR abi then
           (case registerCallTrigger_0_decode abi inp of
              Inl e \<Rightarrow> (Inl (CallDecodeError e), tr)
            | Inr fs \<Rightarrow> (Inr [], add_trigger AllCalls fs tr))
         else if sel = registerCallTrigger_1_SELECTOR abi then
           (case registerCallTrigger_1_decode abi inp of
              Inl e \<Rightarrow> (Inl (CallDecodeError e), tr)
            | Inr (fs, ts) \<Rightarrow> (Inr [], add_trigger (Call ts) fs tr))
         else if sel = registerStorageChangeTrigger_0_SELECTOR abi then
           (case registerStorageChangeTrigger_0_decode abi inp of
              Inl e \<Rightarrow> (Inl (CallDecodeError e), tr)
            | Inr fs \<Rightarrow> (Inr [], add_trigger AllStorageChanges fs tr))
         else if sel = registerStorageChangeTrigger_1_SELECTOR abi then
           (case registerStorageChangeTrigger_1_decode abi inp of
              Inl e \<Rightarrow> (Inl (CallDecodeError e), tr)
            | Inr (fs, slot) \<Rightarrow> (Inr [], add_trigger (StorageChange slot) fs tr))
         else if sel = registerBalanceChangeTrigger_SELECTOR abi then
           (case registerBalanceChangeTrigger_decode abi inp of
              Inl e \<Rightarrow> (Inl (CallDecodeError e), tr)
            | Inr fs \<Rightarrow> (Inr [], add_trigger BalanceChange fs tr))
         else (Inl FnSelectorNotFound, tr))"

definition trigger_recorder_call :: "itrigger_recorder_abi \<Rightarrow> (string \<Rightarrow> bytes) \<Rightarrow>
    trigger_recorder \<Rightarrow> call_inputs \<Rightarrow> call_outcome option \<times> trigger_recorder" where
  "trigger_recorder_call abi enc tr inputs =
     (if ci_target_address inputs = TRIGGER_RECORDER then
        let (record_result, tr') = record_trigger abi tr inputs
        in (Some (inspector_result_to_call_outcome enc record_error_display record_result
              (gas_new (ci_gas_limit inputs)) (ci_return_memory_offset inputs)), tr')
      else (None, tr))"

definition trigger_recorder_inspector ::
  "itrigger_recorder_abi \<Rightarrow> (string \<Rightarrow> bytes) \<Rightarrow> (trigger_recorder, 'c) inspector" where
  "trigger_recorder_inspector abi enc =
     \<lparr>insp_initialize_interp = \<lambda>tr c. (tr, c),
      insp_step = \<lambda>tr c. (tr, c),
      insp_step_end = \<lambda>tr c. (tr, c),
      insp_call = \<lambda>tr c inputs. (let (out, tr') = trigger_recorder_call abi enc tr inputs in (out, tr', c)),
      insp_call_end = \<lambda>tr c inputs out. (out, tr, c),
      insp_create = \<lambda>tr c inputs. (None, tr, c),
      insp_create_end = \<lambda>tr c inputs out. (out, tr, c),
      insp_selfdestruct = \<lambda>tr c ct t v. (tr, c)\<rparr>"

text \<open>The database of the extraction run is revm's own in-memory database: its
  \<^verbatim>\<open>insert_account_info\<close> and \<^verbatim>\<open>AccountInfo::default\<close> are parameters.\<close>

definition insert_trigger_recorder_account ::
  "(address \<Rightarrow> account_info \<Rightarrow> 'm \<Rightarrow> 'm) \<Rightarrow> account_info \<Rightarrow> 'm \<Rightarrow> 'm" where
  "insert_trigger_recorder_account db_insert_account_info default_info db =
     db_insert_account_info TRIGGER_RECORDER (default_info\<lparr>info_code := Some [0x45]\<rparr>) db"

section \<open>The call tracer\<close>

record call_tracer =
  call_inputs_of :: "(address \<times> fn_selector, call_inputs list) hash_map"
  ct_journaled_state :: "journaled_state option"

definition call_tracer_new :: call_tracer where
  "call_tracer_new = \<lparr>call_inputs_of = [], ct_journaled_state = None\<rparr>"

definition record_call :: "call_tracer \<Rightarrow> call_inputs \<Rightarrow> call_tracer" where
  "record_call ct inputs =
     ct\<lparr>call_inputs_of := hm_entry (ci_target_address inputs, input_selector (ci_input inputs)) []
          (\<lambda>cs. cs @ [inputs]) (call_inputs_of ct)\<rparr>"

definition tracer_calls :: "call_tracer \<Rightarrow> address hash_set" where
  "tracer_calls ct = hs_extend [] (map fst (hm_keys (call_inputs_of ct)))"

definition insert_trace :: "address \<Rightarrow> call_tracer \<Rightarrow> call_tracer" where
  "insert_trace a ct = ct\<lparr>call_inputs_of := hm_insert (a, 0) [] (call_inputs_of ct)\<rparr>"

type_synonym trigger_map = "(address, trigger_type hash_set) hash_map"

definition add_fired :: "address \<Rightarrow> trigger_type \<Rightarrow> trigger_map \<Rightarrow> trigger_map" where
  "add_fired a t m = hm_entry a [] (hs_insert t) m"

fun journal_triggers :: "journal_entry \<Rightarrow> trigger_map \<Rightarrow> trigger_map" where
  "journal_triggers (BalanceTransfer from to bal) m =
     fold (\<lambda>a. add_fired a BalanceChange) [from, to] m"
| "journal_triggers (StorageChanged a key had) m = add_fired a (StorageChange key) m"
| "journal_triggers OtherEntry m = m"

definition triggers :: "call_tracer \<Rightarrow> trigger_map" where
  "triggers ct =
     (let result = fold (\<lambda>(a, s). add_fired a (Call s)) (hm_keys (call_inputs_of ct)) []
      in case ct_journaled_state ct of
           None \<Rightarrow> result
         | Some js \<Rightarrow> fold journal_triggers (concat (js_journal js)) result)"

definition call_tracer_inspector :: "(call_tracer, 'c) inspector" where
  "call_tracer_inspector =
     \<lparr>insp_initialize_interp = \<lambda>ct c. (ct, c),
      insp_step = \<lambda>ct c. (ct, c),
      insp_step_end = \<lambda>ct c. (ct, c),
      insp_call = \<lambda>ct c inputs. (None, record_call ct inputs, c),
      insp_call_end = \<lambda>ct c inputs out. (out, ct, c),
      insp_create = \<lambda>ct c inputs. (None, ct, c),
      insp_create_end = \<lambda>ct c inputs out. (out, ct, c),
      insp_selfdestruct = \<lambda>ct c a t v. (ct, c)\<rparr>"

section \<open>What the two inspectors promise\<close>

text \<open>The registration a call asks for, by a table of the interface's functions.\<close>

definition registration_table ::
  "itrigger_recorder_abi \<Rightarrow> (fn_selector \<times> (bytes \<Rightarrow> (trigger_type \<times> fn_selector) option)) list" where
  "registration_table abi =
     [(registerCallTrigger_0_SELECTOR abi, \<lambda>b. case registerCallTrigger_0_decode abi b of
         Inr fs \<Rightarrow> Some (AllCalls, fs) | Inl _ \<Rightarrow> None),
      (registerCallTrigger_1_SELECTOR abi, \<lambda>b. case registerCallTrigger_1_decode abi b of
         Inr (fs, ts) \<Rightarrow> Some (Call ts, fs) | Inl _ \<Rightarrow> None),
      (registerStorageChangeTrigger_0_SELECTOR abi, \<lambda>b. case registerStorageChangeTrigger_0_decode abi b of
         Inr fs \<Rightarrow> Some (AllStorageChanges, fs) | Inl _ \<Rightarrow> None),
      (registerStorageChangeTrigger_1_SELECTOR abi, \<lambda>b. case registerStorageChangeTrigger_1_decode abi b of
         Inr (fs, slot) \<Rightarrow> Some (StorageChange slot, fs) | Inl _ \<Rightarrow> None),
      (registerBalanceChangeTrigger_SELECTOR abi, \<lambda>b. case registerBalanceChangeTrigger_decode abi b of
         Inr fs \<Rightarrow> Some (BalanceChange, fs) | Inl _ \<Rightarrow> None)]"

definition registration ::
  "itrigger_recorder_abi \<Rightarrow> call_inputs \<Rightarrow> (trigger_type \<times> fn_selector) option" where
  "registration abi inputs =
     (if ci_target_address inputs = TRIGGER_RECORDER then
        Option.bind (hm_get (registration_table abi) (input_selector (ci_input inputs)))
          (\<lambda>dec. dec (ci_input inputs))
      else None)"

definition registered :: "trigger_recorder \<Rightarrow> trigger_type \<Rightarrow> fn_selector set" where
  "registered tr t = (case hm_get (recorded_triggers tr) t of None \<Rightarrow> {} | Some ss \<Rightarrow> set ss)"

definition fired :: "call_tracer \<Rightarrow> address \<Rightarrow> trigger_type set" where
  "fired ct a = (case hm_get (triggers ct) a of None \<Rightarrow> {} | Some ts \<Rightarrow> set ts)"

definition journal_of :: "call_tracer \<Rightarrow> journal_entry list" where
  "journal_of ct = (case ct_journaled_state ct of None \<Rightarrow> [] | Some js \<Rightarrow> concat (js_journal js))"

definition fires :: "call_tracer \<Rightarrow> address \<Rightarrow> trigger_type \<Rightarrow> bool" where
  "fires ct a t = (case t of
       Call s \<Rightarrow> hm_get (call_inputs_of ct) (a, s) \<noteq> None
     | BalanceChange \<Rightarrow> list_ex (\<lambda>e. case e of
           BalanceTransfer from to bal \<Rightarrow> a = from \<or> a = to | _ \<Rightarrow> False) (journal_of ct)
     | StorageChange slot \<Rightarrow> list_ex (\<lambda>e. case e of
           StorageChanged addr key had \<Rightarrow> addr = a \<and> key = slot | _ \<Rightarrow> False) (journal_of ct)
     | AllCalls \<Rightarrow> False
     | AllStorageChanges \<Rightarrow> False)"

section \<open>Lemmas\<close>

lemma registered_add_trigger [simp]:
  "registered (add_trigger t s tr) t' = (if t' = t then insert s (registered tr t) else registered tr t')"
  by (auto simp: registered_def add_trigger_def split: option.splits)

lemma record_trigger_state:
  "snd (trigger_recorder_call abi enc tr inputs) = (case registration abi inputs of
       None \<Rightarrow> tr | Some (t, s) \<Rightarrow> add_trigger t s tr)"
  by (simp add: trigger_recorder_call_def registration_def record_trigger_def registration_table_def
      Let_def case_prod_unfold split: sum.splits)

interpretation trec: call_inspector "trigger_recorder_inspector abi enc"
  "\<lambda>tr inputs. snd (trigger_recorder_call abi enc tr inputs)"
  by unfold_locales (simp_all add: trigger_recorder_inspector_def case_prod_unfold Let_def)

interpretation tracer: call_inspector call_tracer_inspector record_call
  by unfold_locales (simp_all add: call_tracer_inspector_def)

lemma registered_fold:
  "registered (fold (\<lambda>inputs tr. snd (trigger_recorder_call abi enc tr inputs)) cs tr) t =
     registered tr t \<union> {s. \<exists>inputs \<in> set cs. registration abi inputs = Some (t, s)}"
proof (induction cs arbitrary: tr)
  case (Cons c cs)
  have "registered (snd (trigger_recorder_call abi enc tr c)) t =
      registered tr t \<union> {s. registration abi c = Some (t, s)}"
    by (auto simp: record_trigger_state split: option.splits)
  then show ?case by (auto simp: Cons.IH)
qed simp

lemma record_call_get:
  "hm_get (call_inputs_of (record_call ct inputs)) k =
     (if k = (ci_target_address inputs, input_selector (ci_input inputs))
      then Some ((case hm_get (call_inputs_of ct) k of None \<Rightarrow> [] | Some cs \<Rightarrow> cs) @ [inputs])
      else hm_get (call_inputs_of ct) k)"
  by (simp add: record_call_def)

lemma record_call_js [simp]: "ct_journaled_state (record_call ct inputs) = ct_journaled_state ct"
  by (simp add: record_call_def)

lemma record_calls_get:
  "(case hm_get (call_inputs_of (fold (\<lambda>c ct. record_call ct c) cs ct)) k of None \<Rightarrow> [] | Some xs \<Rightarrow> xs) =
     (case hm_get (call_inputs_of ct) k of None \<Rightarrow> [] | Some xs \<Rightarrow> xs) @
     filter (\<lambda>c. (ci_target_address c, input_selector (ci_input c)) = k) cs"
proof (induction cs arbitrary: ct)
  case (Cons c cs)
  then show ?case by (auto simp: record_call_get split: option.splits)
qed simp

lemma record_calls_keys:
  "set (hm_keys (call_inputs_of (fold (\<lambda>c ct. record_call ct c) cs ct))) =
     set (hm_keys (call_inputs_of ct)) \<union> (\<lambda>c. (ci_target_address c, input_selector (ci_input c))) ` set cs"
  by (induction cs arbitrary: ct) (auto simp: record_call_def)

lemma record_calls_js [simp]:
  "ct_journaled_state (fold (\<lambda>c ct. record_call ct c) cs ct) = ct_journaled_state ct"
  by (induction cs arbitrary: ct) simp_all

abbreviation fired_in :: "trigger_map \<Rightarrow> address \<Rightarrow> trigger_type set" where
  "fired_in m a \<equiv> (case hm_get m a of None \<Rightarrow> {} | Some ts \<Rightarrow> set ts)"

lemma fired_in_add [simp]:
  "fired_in (add_fired a t m) b = (if b = a then insert t (fired_in m b) else fired_in m b)"
  by (auto simp: add_fired_def split: option.splits)

lemma fired_in_calls:
  "fired_in (fold (\<lambda>(a, s). add_fired a (Call s)) ks m) b =
     fired_in m b \<union> {Call s | s. (b, s) \<in> set ks}"
  by (induction ks arbitrary: m) (auto simp: case_prod_unfold)

lemma fired_in_journal:
  "fired_in (fold journal_triggers es m) b = fired_in m b \<union>
     {BalanceChange |from to bal. BalanceTransfer from to bal \<in> set es \<and> b \<in> {from, to}} \<union>
     {StorageChange key | key had. StorageChanged b key had \<in> set es}"
proof (induction es arbitrary: m)
  case (Cons e es)
  show ?case by (cases e) (auto simp: Cons.IH)
qed simp

lemma fired_eq:
  "fired ct a = {Call s | s. (a, s) \<in> set (hm_keys (call_inputs_of ct))} \<union>
     {BalanceChange |from to bal. BalanceTransfer from to bal \<in> set (journal_of ct) \<and> a \<in> {from, to}} \<union>
     {StorageChange key | key had. StorageChanged a key had \<in> set (journal_of ct)}"
  by (cases "ct_journaled_state ct")
    (simp_all add: fired_def triggers_def journal_of_def Let_def fired_in_calls fired_in_journal
      del: set_concat)

lemma list_ex_balance:
  "list_ex (\<lambda>e. case e of BalanceTransfer from to bal \<Rightarrow> a = from \<or> a = to | _ \<Rightarrow> False) es \<longleftrightarrow>
     (\<exists>from to bal. BalanceTransfer from to bal \<in> set es \<and> a \<in> {from, to})"
  by (induction es) (auto split: journal_entry.splits)

lemma list_ex_storage:
  "list_ex (\<lambda>e. case e of StorageChanged addr key had \<Rightarrow> addr = a \<and> key = slot | _ \<Rightarrow> False) es \<longleftrightarrow>
     (\<exists>had. StorageChanged a slot had \<in> set es)"
  by (induction es) (auto split: journal_entry.splits)

lemma fired_iff: "t \<in> fired ct a \<longleftrightarrow> fires ct a t"
  by (cases t) (auto simp: fired_eq fires_def set_hm_keys list_ex_balance list_ex_storage)

lemma trigger_map_ok_add [simp]: "hm_ok m \<Longrightarrow> hm_ok (add_fired a t m)"
  by (simp add: add_fired_def)

lemma trigger_map_ok_calls: "hm_ok m \<Longrightarrow> hm_ok (fold (\<lambda>(a, s). add_fired a (Call s)) ks m)"
  by (induction ks arbitrary: m) (simp_all add: case_prod_unfold)

lemma trigger_map_ok_journal: "hm_ok m \<Longrightarrow> hm_ok (fold journal_triggers es m)"
proof (induction es arbitrary: m)
  case (Cons e es)
  then show ?case by (cases e) simp_all
qed simp

lemma triggers_ok: "hm_ok (triggers ct)"
  by (simp add: triggers_def Let_def trigger_map_ok_calls trigger_map_ok_journal split: option.split)

section \<open>Properties\<close>

text \<open>C33. Over a whole execution, whatever hooks the EVM calls and in whatever order, the trigger
  recorder holds exactly the registrations made by calls to the recorder's address that name a
  function of the interface and decode; all other calls leave it alone, and the EVM's context is
  never touched.\<close>

theorem trigger_recorder_exact:
  "registered (fst (run_events (trigger_recorder_inspector abi enc) evs (\<lparr>recorded_triggers = []\<rparr>, c))) t
     = {s. \<exists>inputs \<in> set (event_calls evs). registration abi inputs = Some (t, s)} \<and>
   snd (run_events (trigger_recorder_inspector abi enc) evs (\<lparr>recorded_triggers = []\<rparr>, c)) = c"
  by (simp add: trec.run_events_fold registered_fold, simp add: registered_def)

text \<open>C32. Over a whole execution, the tracer's entry for a target and a selector is exactly the
  sequence of calls with that target and selector, in the order they were made, and the tracer
  never intercepts a call or changes an outcome.\<close>

theorem call_tracer_exact:
  fixes c :: 'c
  assumes "ct = fst (run_events call_tracer_inspector evs (call_tracer_new, c))"
  shows "hm_get (call_inputs_of ct) (target, selector) =
      (let cs = filter (\<lambda>x. ci_target_address x = target \<and> input_selector (ci_input x) = selector)
                  (event_calls evs)
       in if cs = [] then None else Some cs) \<and>
    fst (insp_call call_tracer_inspector ct c inputs) = None \<and>
    fst (insp_call_end call_tracer_inspector ct c inputs out) = out"
proof -
  let ?k = "(target, selector)"
  have ct: "ct = fold (\<lambda>c ct. record_call ct c) (event_calls evs) call_tracer_new"
    using assms by (simp add: tracer.run_events_fold)
  have "?k \<in> set (hm_keys (call_inputs_of ct)) \<longleftrightarrow>
      (\<exists>x \<in> set (event_calls evs). ci_target_address x = target \<and> input_selector (ci_input x) = selector)"
    unfolding ct record_calls_keys by (auto simp: call_tracer_new_def hm_keys_def)
  moreover have "(case hm_get (call_inputs_of ct) ?k of None \<Rightarrow> [] | Some xs \<Rightarrow> xs) =
      filter (\<lambda>x. ci_target_address x = target \<and> input_selector (ci_input x) = selector) (event_calls evs)"
    unfolding ct record_calls_get by (simp add: call_tracer_new_def)
  ultimately show ?thesis
    by (auto simp: set_hm_keys Let_def filter_empty_conv call_tracer_inspector_def split: option.splits)
qed

theorem call_tracer_exact_witness:
  "hm_get (call_inputs_of (fst (run_events call_tracer_inspector
      [EvStep, EvCall \<lparr>ci_input = [1, 2, 3, 4, 5], ci_return_memory_offset = (0, 0), ci_gas_limit = 9,
         ci_bytecode_address = 7, ci_target_address = 7, ci_caller = 1, ci_value = TransferValue 0,
         ci_is_static = False\<rparr>]
      (call_tracer_new, ())))) (7, 0x01020304) =
   Some [\<lparr>ci_input = [1, 2, 3, 4, 5], ci_return_memory_offset = (0, 0), ci_gas_limit = 9,
         ci_bytecode_address = 7, ci_target_address = 7, ci_caller = 1, ci_value = TransferValue 0,
         ci_is_static = False\<rparr>]"
  by (subst call_tracer_exact [OF refl, THEN conjunct1])
    (simp add: input_selector_def selector_from_slice_def)

text \<open>C31. The triggers the tracer reports for an address are exactly the ones that fired: a call
  trigger for each selector it was called with, a balance trigger when the journal moves balance
  from or to it, a storage trigger for each of its slots the journal changes; each address is
  reported once.\<close>

theorem triggers_exact:
  "{t. \<exists>ts. hm_get (triggers ct) a = Some ts \<and> t \<in> set ts} =
     {t. case t of
           Call s \<Rightarrow> hm_get (call_inputs_of ct) (a, s) \<noteq> None
         | BalanceChange \<Rightarrow> (\<exists>from to bal. BalanceTransfer from to bal \<in> set (journal_of ct) \<and> a \<in> {from, to})
         | StorageChange slot \<Rightarrow> (\<exists>had. StorageChanged a slot had \<in> set (journal_of ct))
         | _ \<Rightarrow> False} \<and>
   distinct (hm_keys (triggers ct))"
proof -
  have "{t. \<exists>ts. hm_get (triggers ct) a = Some ts \<and> t \<in> set ts} = {t. fires ct a t}"
    unfolding fired_iff [symmetric] by (auto simp: fired_def split: option.splits)
  moreover have "distinct (hm_keys (triggers ct))"
    using triggers_ok [of ct] by (simp add: hm_ok_def hm_keys_def)
  ultimately show ?thesis
    by (simp add: fires_def list_ex_balance list_ex_storage cong: trigger_type.case_cong)
qed

end
