(* ===== verification/Precompiles.thy ===== *)
theory Precompiles
  imports MultiFork Triggers
begin

text \<open>
  The cheatcodes an assertion calls: \<^verbatim>\<open>src/inspectors/phevm.rs\<close> and
  \<^verbatim>\<open>src/inspectors/precompiles/*.rs\<close>.  The context of an intercepted call is the database with the
  two forks and the EVM's journaled state; the inspector's own state is the initial journaled
  state and the logs and traces of the transaction.  What \<^verbatim>\<open>sol!\<close> generates for the \<^verbatim>\<open>PhEvm\<close> interface
  (selectors, decoders, encoders) is the parameter \<open>phevm_abi\<close>.
  The lemmas give the exact answer of each precompile and what it may change: only the two fork
  precompiles touch the context, and whatever an assertion does, a load reads the state of the
  transaction side the assertion last forked to.
\<close>

section \<open>Interface\<close>

record phevm_log =
  pl_topics :: "b256 list"
  pl_data :: bytes
  pl_emitter :: address

record phevm_call_inputs =
  pci_input :: bytes
  pci_gas_limit :: u64
  pci_bytecode_address :: address
  pci_target_address :: address
  pci_caller :: address
  pci_value :: u256

record phevm_abi =
  forkPreState_SELECTOR :: fn_selector
  forkPostState_SELECTOR :: fn_selector
  load_SELECTOR :: fn_selector
  getLogs_SELECTOR :: fn_selector
  getCallInputs_SELECTOR :: fn_selector
  getStateChanges_SELECTOR :: fn_selector
  getAssertionAdopter_SELECTOR :: fn_selector
  load_decode :: "bytes \<Rightarrow> (string, address \<times> b256) result"
  getCallInputs_decode :: "bytes \<Rightarrow> (string, address \<times> fn_selector) result"
  getStateChanges_decode :: "bytes \<Rightarrow> (string, address \<times> b256) result"
  encode_u256 :: "u256 \<Rightarrow> bytes"
  encode_u256_list :: "u256 list \<Rightarrow> bytes"
  encode_logs :: "phevm_log list \<Rightarrow> bytes"
  encode_call_inputs :: "phevm_call_inputs list \<Rightarrow> bytes"
  encode_address :: "address \<Rightarrow> bytes"
  encode_error :: "string \<Rightarrow> bytes"
  debug_selector :: "fn_selector \<Rightarrow> string"

record logs_and_traces =
  tx_logs :: "evm_log list"
  call_traces :: call_tracer

record phevm_context =
  logs_and_traces_of :: logs_and_traces
  adopter_of :: address

definition phevm_context_new :: "logs_and_traces \<Rightarrow> address \<Rightarrow> phevm_context" where
  "phevm_context_new lt a = \<lparr>logs_and_traces_of = lt, adopter_of = a\<rparr>"

datatype get_state_changes_error =
    StateChangesDecodeError string
  | JournaledStateMissing
  | SlotNotFound
  | AccountNotFound

datatype get_call_inputs_error = FailedToDecodeGetCallInputsCall string

datatype precompile_error =
    SelectorNotFound fn_selector
  | GetStateChangesError get_state_changes_error
  | GetCallInputsError get_call_inputs_error
  | PrecompileForkError fork_error

primrec get_state_changes_error_display :: "get_state_changes_error \<Rightarrow> string" where
  "get_state_changes_error_display (StateChangesDecodeError e) = ''Error decoding call inputs''"
| "get_state_changes_error_display JournaledStateMissing =
     ''Journaled State Missing from Context. For some reason it was not captured.''"
| "get_state_changes_error_display SlotNotFound =
     ''Slot not found in journaled state, but differences were found.''"
| "get_state_changes_error_display AccountNotFound =
     ''Account not found in journaled state, but differences were found.''"

primrec get_call_inputs_error_display :: "get_call_inputs_error \<Rightarrow> string" where
  "get_call_inputs_error_display (FailedToDecodeGetCallInputsCall e) =
     ''Failed to decode getCallInputs call: '' @ e"

primrec precompile_error_display :: "phevm_abi \<Rightarrow> precompile_error \<Rightarrow> string" where
  "precompile_error_display abi (SelectorNotFound s) =
     ''Precompile selector not found: '' @ debug_selector abi s"
| "precompile_error_display abi (GetStateChangesError e) =
     ''Error getting state changes: '' @ get_state_changes_error_display e"
| "precompile_error_display abi (GetCallInputsError e) =
     ''Error getting call inputs: '' @ get_call_inputs_error_display e"
| "precompile_error_display abi (PrecompileForkError e) = ''Error switching forks: Fork not found.''"

record 'e evm_ctx =
  ctx_db :: "'e multi_fork_db"
  ctx_js :: journaled_state

record phevm_inspector =
  init_journaled_state :: journaled_state
  phevm_context_of :: phevm_context

section \<open>The precompiles\<close>

definition fork_pre_state :: "journaled_state \<Rightarrow> 'e evm_ctx \<Rightarrow> (fork_error, bytes \<times> 'e evm_ctx) result" where
  "fork_pre_state init_js ctx =
     result_bind (switch_fork (ctx_db ctx) PreTx (ctx_js ctx) init_js)
       (\<lambda>(db, js). Inr ([], ctx\<lparr>ctx_db := db, ctx_js := js\<rparr>))"

definition fork_post_state :: "journaled_state \<Rightarrow> 'e evm_ctx \<Rightarrow> (fork_error, bytes \<times> 'e evm_ctx) result" where
  "fork_post_state init_js ctx =
     result_bind (switch_fork (ctx_db ctx) PostTx (ctx_js ctx) init_js)
       (\<lambda>(db, js). Inr ([], ctx\<lparr>ctx_db := db, ctx_js := js\<rparr>))"

definition load_external_slot :: "phevm_abi \<Rightarrow> 'e evm_ctx \<Rightarrow> call_inputs \<Rightarrow> bytes" where
  "load_external_slot abi ctx inputs = (case load_decode abi (ci_input inputs) of
       Inl _ \<Rightarrow> []
     | Inr (target, slot) \<Rightarrow>
         let _ = fork_basic_ref (mfd_active_db (ctx_db ctx)) target in
         (case fork_storage_ref (mfd_active_db (ctx_db ctx)) target slot of
            Inl _ \<Rightarrow> []
          | Inr v \<Rightarrow> encode_u256 abi v))"

definition get_logs :: "phevm_abi \<Rightarrow> phevm_context \<Rightarrow> bytes" where
  "get_logs abi pc = encode_logs abi (map (\<lambda>l.
     \<lparr>pl_topics = log_topics l, pl_data = log_data l, pl_emitter = log_address l\<rparr>)
     (tx_logs (logs_and_traces_of pc)))"

definition sol_call_inputs :: "call_inputs \<Rightarrow> phevm_call_inputs" where
  "sol_call_inputs i =
     \<lparr>pci_input = (if length (ci_input i) \<ge> 4 then drop 4 (ci_input i) else []),
      pci_gas_limit = ci_gas_limit i,
      pci_bytecode_address = ci_bytecode_address i,
      pci_target_address = ci_target_address i,
      pci_caller = ci_caller i,
      pci_value = call_value_get (ci_value i)\<rparr>"

definition get_call_inputs ::
  "phevm_abi \<Rightarrow> call_inputs \<Rightarrow> phevm_context \<Rightarrow> (get_call_inputs_error, bytes) result" where
  "get_call_inputs abi inputs pc =
     result_bind (map_err FailedToDecodeGetCallInputsCall (getCallInputs_decode abi (ci_input inputs)))
       (\<lambda>(target, selector).
          let cs = (case hm_get (call_inputs_of (call_traces (logs_and_traces_of pc))) (target, selector) of
                      None \<Rightarrow> [] | Some cs \<Rightarrow> cs)
          in Inr (encode_call_inputs abi (map sol_call_inputs cs)))"

definition get_assertion_adopter :: "phevm_abi \<Rightarrow> phevm_context \<Rightarrow> bytes" where
  "get_assertion_adopter abi pc = encode_address abi (adopter_of pc)"

primrec had_values :: "address \<Rightarrow> u256 \<Rightarrow> journal_entry list \<Rightarrow> u256 list \<Rightarrow> u256 list" where
  "had_values a slot [] acc = acc"
| "had_values a slot (e # es) acc = had_values a slot es (case e of
       StorageChanged addr key had \<Rightarrow> if addr = a \<and> key = slot then acc @ [had] else acc
     | _ \<Rightarrow> acc)"

definition get_differences ::
  "journaled_state \<Rightarrow> address \<Rightarrow> u256 \<Rightarrow> (get_state_changes_error, u256 list) result" where
  "get_differences js a slot =
     (let differences = had_values a slot (concat (js_journal js)) []
      in if differences \<noteq> [] then
           result_bind (ok_or AccountNotFound (hm_get (js_state js) a)) (\<lambda>acc.
           result_bind (ok_or SlotNotFound (hm_get (acc_storage acc) slot)) (\<lambda>sl.
           Inr (differences @ [present_value sl])))
         else Inr differences)"

definition get_state_changes ::
  "phevm_abi \<Rightarrow> call_inputs \<Rightarrow> phevm_context \<Rightarrow> (get_state_changes_error, bytes) result" where
  "get_state_changes abi inputs pc =
     result_bind (map_err StateChangesDecodeError (getStateChanges_decode abi (ci_input inputs)))
       (\<lambda>(contractAddress, slot).
        result_bind (ok_or JournaledStateMissing
            (ct_journaled_state (call_traces (logs_and_traces_of pc)))) (\<lambda>js.
        result_bind (get_differences js contractAddress slot) (\<lambda>ds.
        Inr (encode_u256_list abi ds))))"

section \<open>The inspector\<close>

definition execute_precompile :: "phevm_abi \<Rightarrow> phevm_inspector \<Rightarrow> 'e evm_ctx \<Rightarrow> call_inputs \<Rightarrow>
    (precompile_error, bytes) result \<times> 'e evm_ctx" where
  "execute_precompile abi insp ctx inputs =
     (let sel = input_selector (ci_input inputs); pc = phevm_context_of insp;
          init_js = init_journaled_state insp
      in if sel = forkPreState_SELECTOR abi then
           (case fork_pre_state init_js ctx of
              Inl e \<Rightarrow> (Inl (PrecompileForkError e), ctx) | Inr (out, ctx') \<Rightarrow> (Inr out, ctx'))
         else if sel = forkPostState_SELECTOR abi then
           (case fork_post_state init_js ctx of
              Inl e \<Rightarrow> (Inl (PrecompileForkError e), ctx) | Inr (out, ctx') \<Rightarrow> (Inr out, ctx'))
         else if sel = load_SELECTOR abi then (Inr (load_external_slot abi ctx inputs), ctx)
         else if sel = getLogs_SELECTOR abi then (Inr (get_logs abi pc), ctx)
         else if sel = getCallInputs_SELECTOR abi then
           (map_err GetCallInputsError (get_call_inputs abi inputs pc), ctx)
         else if sel = getStateChanges_SELECTOR abi then
           (map_err GetStateChangesError (get_state_changes abi inputs pc), ctx)
         else if sel = getAssertionAdopter_SELECTOR abi then (Inr (get_assertion_adopter abi pc), ctx)
         else (Inl (SelectorNotFound sel), ctx))"

definition phevm_call :: "phevm_abi \<Rightarrow> phevm_inspector \<Rightarrow> 'e evm_ctx \<Rightarrow> call_inputs \<Rightarrow>
    call_outcome option \<times> phevm_inspector \<times> 'e evm_ctx" where
  "phevm_call abi insp ctx inputs =
     (if ci_target_address inputs = PRECOMPILE_ADDRESS then
        let (res, ctx') = execute_precompile abi insp ctx inputs
        in (Some (inspector_result_to_call_outcome (encode_error abi) (precompile_error_display abi) res
              (gas_new (ci_gas_limit inputs)) (ci_return_memory_offset inputs)), insp, ctx')
      else (None, insp, ctx))"

definition phevm_inspector_hooks :: "phevm_abi \<Rightarrow> (phevm_inspector, 'e evm_ctx) inspector" where
  "phevm_inspector_hooks abi =
     \<lparr>insp_initialize_interp = \<lambda>i c. (i, c),
      insp_step = \<lambda>i c. (i, c),
      insp_step_end = \<lambda>i c. (i, c),
      insp_call = phevm_call abi,
      insp_call_end = \<lambda>i c inputs out. (out, i, c),
      insp_create = \<lambda>i c inputs. (None, i, c),
      insp_create_end = \<lambda>i c inputs out. (out, i, c),
      insp_selfdestruct = \<lambda>i c ct t v. (i, c)\<rparr>"

definition insert_precompile_account :: "account_info \<Rightarrow> 'e multi_fork_db \<Rightarrow> 'e multi_fork_db" where
  "insert_precompile_account default_info db =
     db\<lparr>mfd_active_db := fork_dont_read PRECOMPILE_ADDRESS
         (insert_account_info (mfd_active_db db) PRECOMPILE_ADDRESS
            (default_info\<lparr>info_code := Some [0x45]\<rparr>))\<rparr>"

text \<open>The journaled state the EVM starts from is revm's \<^verbatim>\<open>JournaledState::new\<close>: a parameter.\<close>

definition phevm_inspector_new :: "(u8 \<Rightarrow> journaled_state) \<Rightarrow> account_info \<Rightarrow> u8 \<Rightarrow>
    'e multi_fork_db \<Rightarrow> phevm_context \<Rightarrow> phevm_inspector \<times> 'e multi_fork_db" where
  "phevm_inspector_new journaled_state_new default_info spec_id db pc =
     (\<lparr>init_journaled_state = journaled_state_new spec_id, phevm_context_of = pc\<rparr>,
      insert_precompile_account default_info db)"

section \<open>Executions of an assertion\<close>

text \<open>
  What happens to the context while the EVM runs an assertion: the EVM journals its own writes
  (any new journaled state; it never commits), and it calls the hooks of the inspector.
\<close>

inductive phevm_reach :: "phevm_abi \<Rightarrow> phevm_inspector \<Rightarrow> 'e evm_ctx \<Rightarrow> 'e evm_ctx \<Rightarrow> bool"
  for abi insp ctx0 where
  phevm_start: "phevm_reach abi insp ctx0 ctx0"
| phevm_evm: "phevm_reach abi insp ctx0 ctx \<Longrightarrow> phevm_reach abi insp ctx0 (ctx\<lparr>ctx_js := js\<rparr>)"
| phevm_event: "phevm_reach abi insp ctx0 ctx \<Longrightarrow>
    phevm_reach abi insp ctx0 (snd (insp_apply (phevm_inspector_hooks abi) ev (insp, ctx)))"

inductive_cases phevm_reachE: "phevm_reach abi insp ctx0 ctx"

definition shadows :: "'e evm_ctx \<Rightarrow> address \<Rightarrow> bool" where
  "shadows ctx a \<longleftrightarrow> fork_storage (mfd_active_db (ctx_db ctx)) a \<noteq> None"

text \<open>A concrete ABI layer: words of 32 bytes after the selector.\<close>

definition abi_words :: "bytes \<Rightarrow> (string, u256 \<times> u256) result" where
  "abi_words inp = (if length inp = 68
     then Inr (from_be_bytes (take 32 (drop 4 inp)), from_be_bytes (drop 36 inp))
     else Inl ''type check failed'')"

definition sample_phevm_abi :: phevm_abi where
  "sample_phevm_abi =
     \<lparr>forkPreState_SELECTOR = 1, forkPostState_SELECTOR = 2, load_SELECTOR = 3, getLogs_SELECTOR = 4,
      getCallInputs_SELECTOR = 5, getStateChanges_SELECTOR = 6, getAssertionAdopter_SELECTOR = 7,
      load_decode = \<lambda>inp. result_bind (abi_words inp) (\<lambda>(a, s). Inr (ucast a, s)),
      getCallInputs_decode = \<lambda>inp. result_bind (abi_words inp) (\<lambda>(a, s). Inr (ucast a, ucast s)),
      getStateChanges_decode = \<lambda>inp. result_bind (abi_words inp) (\<lambda>(a, s). Inr (ucast a, s)),
      encode_u256 = to_be_bytes,
      encode_u256_list = \<lambda>vs. concat (map to_be_bytes vs),
      encode_logs = \<lambda>ls. concat (map pl_data ls),
      encode_call_inputs = \<lambda>cs. concat (map pci_input cs),
      encode_address = \<lambda>a. to_be_bytes (ucast a),
      encode_error = \<lambda>msg. map of_char msg,
      debug_selector = \<lambda>s. ''selector''\<rparr>"

definition sample_db :: "u256 \<Rightarrow> unit db_ref" where
  "sample_db v = \<lparr>basic_ref = \<lambda>_. Inr None, storage_ref = \<lambda>_ _. Inr v,
     code_by_hash_ref = \<lambda>_. Inl (), block_hash_ref = \<lambda>_. Inl ()\<rparr>"

definition sample_js :: journaled_state where
  "sample_js = \<lparr>js_state = [], js_journal = [[]], js_depth = 1, js_logs = []\<rparr>"

definition sample_call :: "address \<Rightarrow> bytes \<Rightarrow> call_inputs" where
  "sample_call target inp = \<lparr>ci_input = inp, ci_return_memory_offset = (0, 0), ci_gas_limit = 9,
     ci_bytecode_address = target, ci_target_address = target, ci_caller = 1,
     ci_value = TransferValue 0, ci_is_static = False\<rparr>"

definition sample_inspector :: phevm_inspector where
  "sample_inspector = \<lparr>init_journaled_state = sample_js, phevm_context_of =
     phevm_context_new \<lparr>tx_logs = [], call_traces = call_tracer_new\<rparr> 42\<rparr>"

definition sample_ctx :: "unit evm_ctx" where
  "sample_ctx = \<lparr>ctx_db = multi_fork_new (sample_db 1) (sample_db 2), ctx_js = sample_js\<rparr>"

section \<open>Lemmas\<close>

lemma sample_decode:
  "abi_words ([0, 0, 0, s] @ to_be_bytes v @ to_be_bytes w) = Inr (v, w)"
  by (simp add: abi_words_def)

lemma phevm_call_other:
  "ci_target_address inputs \<noteq> PRECOMPILE_ADDRESS \<Longrightarrow> phevm_call abi insp ctx inputs = (None, insp, ctx)"
  by (simp add: phevm_call_def)

lemma phevm_call_insp [simp]: "fst (snd (phevm_call abi insp ctx inputs)) = insp"
  by (simp add: phevm_call_def case_prod_unfold Let_def)

text \<open>The one way a precompile changes the context is a successful switch.\<close>

lemma execute_precompile_ctx:
  "snd (execute_precompile abi insp ctx inputs) = ctx \<or>
   (\<exists>f db js. f = (if input_selector (ci_input inputs) = forkPreState_SELECTOR abi then PreTx else PostTx) \<and>
      switch_fork (ctx_db ctx) f (ctx_js ctx) (init_journaled_state insp) = Inr (db, js) \<and>
      snd (execute_precompile abi insp ctx inputs) = ctx\<lparr>ctx_db := db, ctx_js := js\<rparr>)"
proof -
  let ?sel = "input_selector (ci_input inputs)" and ?init = "init_journaled_state insp"
  consider "?sel = forkPreState_SELECTOR abi"
    | "?sel \<noteq> forkPreState_SELECTOR abi" "?sel = forkPostState_SELECTOR abi"
    | "?sel \<noteq> forkPreState_SELECTOR abi" "?sel \<noteq> forkPostState_SELECTOR abi" by blast
  then show ?thesis
  proof cases
    case 1
    then show ?thesis
      by (cases "switch_fork (ctx_db ctx) PreTx (ctx_js ctx) ?init")
        (auto simp: execute_precompile_def fork_pre_state_def)
  next
    case 2
    then show ?thesis
      by (cases "switch_fork (ctx_db ctx) PostTx (ctx_js ctx) ?init")
        (auto simp: execute_precompile_def fork_post_state_def)
  next
    case 3
    then have "snd (execute_precompile abi insp ctx inputs) = ctx"
      by (simp add: execute_precompile_def Let_def)
    then show ?thesis ..
  qed
qed

lemma phevm_event_ctx:
  "snd (insp_apply (phevm_inspector_hooks abi) ev (insp, ctx)) = ctx \<or>
   (\<exists>f db js. switch_fork (ctx_db ctx) f (ctx_js ctx) (init_journaled_state insp) = Inr (db, js) \<and>
      snd (insp_apply (phevm_inspector_hooks abi) ev (insp, ctx)) = ctx\<lparr>ctx_db := db, ctx_js := js\<rparr>)"
proof (cases ev)
  case (EvCall inputs)
  then show ?thesis
    using execute_precompile_ctx [of abi insp ctx inputs]
    by (auto simp: phevm_inspector_hooks_def phevm_call_def case_prod_unfold Let_def)
qed (simp_all add: phevm_inspector_hooks_def)

text \<open>A switch moves the parked database in and out; the layer above it stays.\<close>

lemma switch_layer:
  "switch_fork mfd f js init = Inr (mfd', js') \<Longrightarrow>
   fork_storage (mfd_active_db mfd') = fork_storage (mfd_active_db mfd) \<and>
   fork_basic (mfd_active_db mfd') = fork_basic (mfd_active_db mfd)"
  by (auto simp: switch_fork_def replace_inner_db_def Let_def result_eqs split: if_splits)

lemma phevm_reach_mfd:
  assumes "phevm_reach abi insp ctx0 ctx" and "mfd_reach pre post (ctx_db ctx0) js0"
  shows "mfd_reach pre post (ctx_db ctx) (ctx_js ctx)"
  using assms(1)
proof induction
  case phevm_start
  show ?case using assms(2) by (rule mfd_runs)
next
  case (phevm_evm ctx js)
  then show ?case by simp (rule mfd_runs)
next
  case (phevm_event ctx ev)
  then show ?case
    using phevm_event_ctx [of abi ev insp ctx] by (auto intro: mfd_switch)
qed

lemma phevm_reach_shadows:
  "phevm_reach abi insp ctx0 ctx \<Longrightarrow> shadows ctx a = shadows ctx0 a"
proof (induction rule: phevm_reach.induct)
  case (phevm_event ctx ev)
  then show ?case
    using phevm_event_ctx [of abi ev insp ctx] by (auto simp: shadows_def dest: switch_layer)
qed (simp_all add: shadows_def)

lemma reach_inner_db:
  "mfd_reach pre post mfd js \<Longrightarrow> inner_db (mfd_active_db mfd) = tx_states pre post (active_fork_id mfd)"
  using reach_db_of_fork [of pre post mfd js "active_fork_id mfd"] by (simp add: db_of_active)

lemma reach_storage:
  "mfd_reach pre post mfd js \<Longrightarrow> fork_storage (mfd_active_db mfd) a = None \<Longrightarrow>
   fork_storage_ref (mfd_active_db mfd) a slot = storage_ref (tx_states pre post (active_fork_id mfd)) a slot"
  by (simp add: fork_storage_ref_def reach_inner_db)

lemma had_values_eq:
  "had_values a slot es acc = acc @ concat (map (\<lambda>e. case e of
       StorageChanged addr key had \<Rightarrow> if addr = a \<and> key = slot then [had] else [] | _ \<Rightarrow> []) es)"
  by (induction es arbitrary: acc) (auto split: journal_entry.splits)

lemma had_values_empty:
  "had_values a slot es [] = [] \<longleftrightarrow> (\<forall>had. StorageChanged a slot had \<notin> set es)"
  by (induction es) (auto simp: had_values_eq split: journal_entry.splits if_splits)

lemma switch_reach_total:
  assumes "mfd_reach pre post mfd js"
  obtains mfd' js' where "switch_fork mfd f js init = Inr (mfd', js')" "active_fork_id mfd' = f"
    "mfd_reach pre post mfd' js'"
proof -
  from reach_inv [OF assms] obtain fk
    where fk: "inactive_forks mfd = [other_fork (active_fork_id mfd) \<mapsto> fk]"
    using mfd_inv_parked by blast
  from fork_id_cases [of f "active_fork_id mfd"]
  have "\<exists>mfd' js'. switch_fork mfd f js init = Inr (mfd', js') \<and> active_fork_id mfd' = f"
    using switch_other [OF fk, of js init] by auto
  then show thesis using that mfd_switch [OF assms] by blast
qed

section \<open>Properties\<close>

text \<open>C26. Whatever an assertion does between its calls (any journaled state, any sequence of
  intercepted calls), the load precompile returns, for an address the assertion layer does not
  hold, the slot's value in the state before the transaction while the pre-state fork is active
  and in the state after it otherwise; only a failing read of that state gives empty bytes.\<close>

theorem load_reads_forked_state:
  assumes "mfd_reach pre post (ctx_db ctx0) js0" and "phevm_reach abi insp ctx0 ctx"
    and "load_decode abi (ci_input inputs) = Inr (a, slot)" and "\<not> shadows ctx0 a"
  shows "load_external_slot abi ctx inputs =
    (case storage_ref (case active_fork_id (ctx_db ctx) of PreTx \<Rightarrow> pre | PostTx \<Rightarrow> post) a slot of
       Inl _ \<Rightarrow> [] | Inr v \<Rightarrow> encode_u256 abi v)"
proof -
  have "fork_storage (mfd_active_db (ctx_db ctx)) a = None"
    using phevm_reach_shadows [OF assms(2), of a] assms(4) by (simp add: shadows_def)
  from reach_storage [OF phevm_reach_mfd [OF assms(2,1)] this] show ?thesis
    by (simp add: load_external_slot_def assms(3) tx_states_def split: sum.splits fork_id.splits)
qed

text \<open>C27. The fork precompiles never revert: at any point of an assertion's execution a call
  with the selector of \<^verbatim>\<open>forkPreState\<close> or \<^verbatim>\<open>forkPostState\<close> returns empty bytes, gives back all of its
  gas, and leaves the named side of the transaction active.\<close>

theorem fork_precompiles_switch:
  assumes "mfd_reach pre post (ctx_db ctx0) js0" and "phevm_reach abi insp ctx0 ctx"
    and "ci_target_address inputs = PRECOMPILE_ADDRESS"
    and "forkPreState_SELECTOR abi \<noteq> forkPostState_SELECTOR abi"
    and "input_selector (ci_input inputs) =
      (case f of PreTx \<Rightarrow> forkPreState_SELECTOR abi | PostTx \<Rightarrow> forkPostState_SELECTOR abi)"
  shows "\<exists>ctx'. phevm_call abi insp ctx inputs =
      (Some \<lparr>co_result = \<lparr>ir_result = IrReturn, ir_output = [],
          ir_gas = \<lparr>gas_limit_of = ci_gas_limit inputs, gas_remaining = ci_gas_limit inputs, gas_refunded = 0\<rparr>\<rparr>,
        co_memory_offset = ci_return_memory_offset inputs\<rparr>, insp, ctx') \<and>
    active_fork_id (ctx_db ctx') = f \<and> js_depth (ctx_js ctx') = js_depth (ctx_js ctx)"
proof -
  from phevm_reach_mfd [OF assms(2,1)]
  obtain mfd' js' where sw: "switch_fork (ctx_db ctx) f (ctx_js ctx) (init_journaled_state insp) = Inr (mfd', js')"
    and f: "active_fork_id mfd' = f" by (rule switch_reach_total)
  have depth: "js_depth js' = js_depth (ctx_js ctx)"
    using reach_inv [OF phevm_reach_mfd [OF assms(2,1)]] sw by (cases rule: switch_cases) simp_all
  show ?thesis
    using assms(3-5) sw f depth
    by (cases f) (simp_all add: phevm_call_def execute_precompile_def fork_pre_state_def
        fork_post_state_def gas_new_def)
qed

text \<open>C28. Every other precompile is read-only: a call that names neither fork function leaves the
  database and the journaled state as they were, and a call to any other address is not
  intercepted at all.\<close>

theorem precompiles_read_only:
  assumes "input_selector (ci_input inputs) \<notin> {forkPreState_SELECTOR abi, forkPostState_SELECTOR abi} \<or>
      ci_target_address inputs \<noteq> PRECOMPILE_ADDRESS"
  shows "snd (phevm_call abi insp ctx inputs) = (insp, ctx) \<and>
    (ci_target_address inputs = PRECOMPILE_ADDRESS) = (fst (phevm_call abi insp ctx inputs) \<noteq> None)"
  using assms by (auto simp: phevm_call_def execute_precompile_def Let_def)

text \<open>The values the state-changes precompile reports for a slot: nothing when the journal
  never changes it, otherwise the value before each journaled change, in order, and the present
  value last; it fails exactly when the journal has a change but the state lacks the account or the
  slot.\<close>

lemma get_differences_exact:
  "get_differences js a slot =
    (let hads = concat (map (\<lambda>e. case e of StorageChanged addr key had \<Rightarrow>
                    if addr = a \<and> key = slot then [had] else [] | _ \<Rightarrow> []) (concat (js_journal js)))
     in if hads = [] then Inr []
        else case hm_get (js_state js) a of
               None \<Rightarrow> Inl AccountNotFound
             | Some acc \<Rightarrow> (case hm_get (acc_storage acc) slot of
                   None \<Rightarrow> Inl SlotNotFound
                 | Some sl \<Rightarrow> Inr (hads @ [present_value sl])))"
  by (simp add: get_differences_def had_values_eq Let_def split: option.splits)

text \<open>C29. The trigger and the precompile agree: an adopter's storage trigger for a slot fires
  exactly when the state-changes precompile has something to report for it (a non-empty list of
  values, or an error that the state is missing).\<close>

theorem storage_trigger_iff_state_changes:
  assumes "ct_journaled_state ct = Some js"
  shows "StorageChange slot \<in> fired ct a \<longleftrightarrow> get_differences js a slot \<noteq> Inr []"
proof -
  have "StorageChange slot \<in> fired ct a \<longleftrightarrow> had_values a slot (concat (js_journal js)) [] \<noteq> []"
    by (simp add: fired_iff fires_def list_ex_storage journal_of_def assms had_values_empty del: set_concat)
  also have "\<dots> \<longleftrightarrow> get_differences js a slot \<noteq> Inr []"
    by (simp add: get_differences_def Let_def split: result_bind_split)
  finally show ?thesis .
qed

text \<open>C30. The call-inputs precompile returns, for a decoded target and selector, every call of
  the traced execution with that target and selector, in order and without the selector bytes.\<close>

theorem get_call_inputs_exact:
  assumes "call_traces (logs_and_traces_of pc) = fst (run_events call_tracer_inspector evs (call_tracer_new, ()))"
    and "getCallInputs_decode abi (ci_input inputs) = Inr (target, selector)"
  shows "get_call_inputs abi inputs pc = Inr (encode_call_inputs abi (map (\<lambda>c.
      \<lparr>pci_input = drop 4 (ci_input c), pci_gas_limit = ci_gas_limit c,
       pci_bytecode_address = ci_bytecode_address c, pci_target_address = target,
       pci_caller = ci_caller c, pci_value = call_value_get (ci_value c)\<rparr>)
    (filter (\<lambda>c. ci_target_address c = target \<and> input_selector (ci_input c) = selector) (event_calls evs))))"
proof -
  have "(case hm_get (call_inputs_of (call_traces (logs_and_traces_of pc))) (target, selector) of
      None \<Rightarrow> [] | Some cs \<Rightarrow> cs) =
    filter (\<lambda>c. ci_target_address c = target \<and> input_selector (ci_input c) = selector) (event_calls evs)"
    unfolding assms(1) tracer.run_events_fold fst_conv record_calls_get
    by (simp add: call_tracer_new_def)
  then show ?thesis
    by (auto simp: get_call_inputs_def assms(2) sol_call_inputs_def Let_def
        intro: arg_cong [of _ _ "encode_call_inputs abi"] map_cong)
qed

theorem load_reads_forked_state_witness:
  "load_external_slot sample_phevm_abi sample_ctx
     (sample_call PRECOMPILE_ADDRESS ([0, 0, 0, 3] @ to_be_bytes 5 @ to_be_bytes 9)) = to_be_bytes 2"
proof -
  have "mfd_reach (sample_db 1) (sample_db 2) (ctx_db sample_ctx) sample_js"
    unfolding sample_ctx_def by simp (rule mfd_start)
  moreover have "load_decode sample_phevm_abi (ci_input (sample_call PRECOMPILE_ADDRESS
      ([0, 0, 0, 3] @ to_be_bytes 5 @ to_be_bytes 9))) = Inr (5, 9)"
    using sample_decode [of 3 5 9] by (simp add: sample_phevm_abi_def sample_call_def)
  moreover have "\<not> shadows sample_ctx 5"
    by (simp add: shadows_def sample_ctx_def multi_fork_new_def fork_new_def)
  ultimately show ?thesis
    using load_reads_forked_state [OF _ phevm_start, of "sample_db 1" "sample_db 2" sample_ctx]
    by (simp add: sample_ctx_def multi_fork_new_def sample_db_def sample_phevm_abi_def)
qed

theorem fork_precompiles_switch_witness:
  "\<exists>ctx'. snd (phevm_call sample_phevm_abi sample_inspector sample_ctx
      (sample_call PRECOMPILE_ADDRESS [0, 0, 0, 1])) = (sample_inspector, ctx') \<and>
    active_fork_id (ctx_db ctx') = PreTx"
proof -
  have "mfd_reach (sample_db 1) (sample_db 2) (ctx_db sample_ctx) sample_js"
    unfolding sample_ctx_def by simp (rule mfd_start)
  from fork_precompiles_switch [OF this phevm_start, of "sample_call PRECOMPILE_ADDRESS [0, 0, 0, 1]"
      sample_phevm_abi PreTx sample_inspector]
  show ?thesis
    by (auto simp: sample_call_def sample_phevm_abi_def input_selector_def selector_from_slice_def)
qed

theorem precompiles_read_only_witness:
  "snd (phevm_call sample_phevm_abi sample_inspector sample_ctx
      (sample_call PRECOMPILE_ADDRESS [0, 0, 0, 7])) = (sample_inspector, sample_ctx)"
  by (rule precompiles_read_only [THEN conjunct1])
    (simp add: sample_call_def sample_phevm_abi_def input_selector_def selector_from_slice_def)

theorem storage_trigger_iff_state_changes_witness:
  "StorageChange 4 \<in> fired \<lparr>call_inputs_of = [], ct_journaled_state = Some
      (sample_js\<lparr>js_journal := [[OtherEntry], [StorageChanged 7 4 1]]\<rparr>)\<rparr> 7"
  by (subst storage_trigger_iff_state_changes [OF call_tracer.select_convs(2)])
    (simp add: get_differences_def sample_js_def)

theorem get_call_inputs_exact_witness:
  "get_call_inputs sample_phevm_abi
      (sample_call PRECOMPILE_ADDRESS ([0, 0, 0, 5] @ to_be_bytes 8 @ to_be_bytes 0x01020304))
      (phevm_context_new \<lparr>tx_logs = [], call_traces = fst (run_events call_tracer_inspector
         [EvCall (sample_call 8 [1, 2, 3, 4, 5]), EvCall (sample_call 9 [1, 2, 3, 4, 6])]
         (call_tracer_new, ()))\<rparr> 42) = Inr [5]"
proof -
  have "getCallInputs_decode sample_phevm_abi (ci_input (sample_call PRECOMPILE_ADDRESS
      ([0, 0, 0, 5] @ to_be_bytes 8 @ to_be_bytes 0x01020304))) = Inr (8, 0x01020304)"
    using sample_decode [of 5 8 "0x01020304"] by (simp add: sample_phevm_abi_def sample_call_def)
  from get_call_inputs_exact [OF _ this] show ?thesis
    by (simp add: phevm_context_new_def sample_phevm_abi_def sample_call_def input_selector_def
        selector_from_slice_def)
qed

end
