(* ===== verification/TxEnv.thy ===== *)
theory TxEnv
  imports Inspectors
begin

text \<open>
  Transactions on their way into the EVM: \<^verbatim>\<open>src/utils/mod.rs\<close> fills the EVM's transaction
  environment from a signed envelope.  The environment and the five kinds of envelope are records
  with the fields the code reads and writes; the fields of the \<^verbatim>\<open>optimism\<close> feature are not set by
  \<^verbatim>\<open>fill_tx_env\<close> and appear as one opaque field.
  The lemmas show that nothing of the environment's previous use survives and what each field is.
\<close>

section \<open>Environments\<close>

datatype tx_kind = TxCreate | TxCall address

record access_list_item =
  ali_address :: address
  ali_storage_keys :: "b256 list"

record authorization =
  auth_chain_id :: u256
  auth_address :: address
  auth_nonce :: u64

record signed_authorization =
  auth_inner :: authorization
  auth_y_parity :: u8
  auth_r :: u256
  auth_s :: u256

datatype authorization_list = SignedList "signed_authorization list" | RecoveredList

record tx_env =
  tx_caller :: address
  tx_gas_limit :: u64
  tx_gas_price :: u256
  tx_transact_to :: tx_kind
  tx_value :: u256
  tx_data :: bytes
  tx_nonce :: "u64 option"
  tx_chain_id :: "u64 option"
  tx_access_list :: "access_list_item list"
  tx_gas_priority_fee :: "u256 option"
  tx_blob_hashes :: "b256 list"
  tx_max_fee_per_blob_gas :: "u256 option"
  tx_authorization_list :: "authorization_list option"
  tx_optimism :: "bytes option"

section \<open>Envelopes\<close>

record tx_legacy =
  legacy_chain_id :: "u64 option"
  legacy_nonce :: u64
  legacy_gas_price :: u128
  legacy_gas_limit :: u64
  legacy_to :: tx_kind
  legacy_value :: u256
  legacy_input :: bytes

record tx_eip2930 =
  e2930_chain_id :: u64
  e2930_nonce :: u64
  e2930_gas_price :: u128
  e2930_gas_limit :: u64
  e2930_to :: tx_kind
  e2930_value :: u256
  e2930_access_list :: "access_list_item list"
  e2930_input :: bytes

record tx_eip1559 =
  e1559_chain_id :: u64
  e1559_nonce :: u64
  e1559_gas_limit :: u64
  e1559_max_fee_per_gas :: u128
  e1559_max_priority_fee_per_gas :: u128
  e1559_to :: tx_kind
  e1559_value :: u256
  e1559_access_list :: "access_list_item list"
  e1559_input :: bytes

record tx_eip4844 =
  e4844_chain_id :: u64
  e4844_nonce :: u64
  e4844_gas_limit :: u64
  e4844_max_fee_per_gas :: u128
  e4844_max_priority_fee_per_gas :: u128
  e4844_to :: address
  e4844_value :: u256
  e4844_access_list :: "access_list_item list"
  e4844_blob_versioned_hashes :: "b256 list"
  e4844_max_fee_per_blob_gas :: u128
  e4844_input :: bytes

record tx_eip7702 =
  e7702_chain_id :: u64
  e7702_nonce :: u64
  e7702_gas_limit :: u64
  e7702_max_fee_per_gas :: u128
  e7702_max_priority_fee_per_gas :: u128
  e7702_to :: address
  e7702_value :: u256
  e7702_access_list :: "access_list_item list"
  e7702_authorization_list :: "signed_authorization list"
  e7702_input :: bytes

datatype tx_envelope =
    Legacy tx_legacy
  | Eip2930 tx_eip2930
  | Eip1559 tx_eip1559
  | Eip4844 tx_eip4844
  | Eip7702 tx_eip7702

definition u256_from :: "u128 \<Rightarrow> u256" where
  "u256_from v = ucast v"

definition revm_authorizations :: "signed_authorization list \<Rightarrow> signed_authorization list" where
  "revm_authorizations items = fold (\<lambda>item auth_list. auth_list @
     [\<lparr>auth_inner = auth_inner item, auth_y_parity = auth_y_parity item, auth_r = auth_r item,
       auth_s = auth_s item\<rparr>]) items []"

fun fill_tx_env :: "tx_envelope \<Rightarrow> tx_env \<Rightarrow> address \<Rightarrow> tx_env" where
  "fill_tx_env (Legacy tx) env sender = env
     \<lparr>tx_caller := sender,
      tx_gas_limit := legacy_gas_limit tx,
      tx_gas_price := u256_from (legacy_gas_price tx),
      tx_gas_priority_fee := None,
      tx_transact_to := legacy_to tx,
      tx_value := legacy_value tx,
      tx_data := legacy_input tx,
      tx_chain_id := legacy_chain_id tx,
      tx_nonce := Some (legacy_nonce tx),
      tx_access_list := [],
      tx_blob_hashes := [],
      tx_max_fee_per_blob_gas := None,
      tx_authorization_list := None\<rparr>"
| "fill_tx_env (Eip2930 tx) env sender = env
     \<lparr>tx_caller := sender,
      tx_gas_limit := e2930_gas_limit tx,
      tx_gas_price := u256_from (e2930_gas_price tx),
      tx_gas_priority_fee := None,
      tx_transact_to := e2930_to tx,
      tx_value := e2930_value tx,
      tx_data := e2930_input tx,
      tx_chain_id := Some (e2930_chain_id tx),
      tx_nonce := Some (e2930_nonce tx),
      tx_access_list := e2930_access_list tx,
      tx_blob_hashes := [],
      tx_max_fee_per_blob_gas := None,
      tx_authorization_list := None\<rparr>"
| "fill_tx_env (Eip1559 tx) env sender = env
     \<lparr>tx_caller := sender,
      tx_gas_limit := e1559_gas_limit tx,
      tx_gas_price := u256_from (e1559_max_fee_per_gas tx),
      tx_gas_priority_fee := Some (u256_from (e1559_max_priority_fee_per_gas tx)),
      tx_transact_to := e1559_to tx,
      tx_value := e1559_value tx,
      tx_data := e1559_input tx,
      tx_chain_id := Some (e1559_chain_id tx),
      tx_nonce := Some (e1559_nonce tx),
      tx_access_list := e1559_access_list tx,
      tx_blob_hashes := [],
      tx_max_fee_per_blob_gas := None,
      tx_authorization_list := None\<rparr>"
| "fill_tx_env (Eip4844 tx) env sender = env
     \<lparr>tx_caller := sender,
      tx_gas_limit := e4844_gas_limit tx,
      tx_gas_price := u256_from (e4844_max_fee_per_gas tx),
      tx_gas_priority_fee := Some (u256_from (e4844_max_priority_fee_per_gas tx)),
      tx_transact_to := TxCall (e4844_to tx),
      tx_value := e4844_value tx,
      tx_data := e4844_input tx,
      tx_chain_id := Some (e4844_chain_id tx),
      tx_nonce := Some (e4844_nonce tx),
      tx_access_list := e4844_access_list tx,
      tx_blob_hashes := e4844_blob_versioned_hashes tx,
      tx_max_fee_per_blob_gas := Some (u256_from (e4844_max_fee_per_blob_gas tx)),
      tx_authorization_list := None\<rparr>"
| "fill_tx_env (Eip7702 tx) env sender = env
     \<lparr>tx_caller := sender,
      tx_authorization_list := Some (SignedList (revm_authorizations (e7702_authorization_list tx))),
      tx_gas_limit := e7702_gas_limit tx,
      tx_gas_price := u256_from (e7702_max_fee_per_gas tx),
      tx_gas_priority_fee := Some (u256_from (e7702_max_priority_fee_per_gas tx)),
      tx_transact_to := TxCall (e7702_to tx),
      tx_value := e7702_value tx,
      tx_data := e7702_input tx,
      tx_chain_id := Some (e7702_chain_id tx),
      tx_nonce := Some (e7702_nonce tx),
      tx_access_list := e7702_access_list tx,
      tx_blob_hashes := [],
      tx_max_fee_per_blob_gas := None\<rparr>"

section \<open>Lemmas\<close>

lemma revm_authorizations_id [simp]: "revm_authorizations items = items"
proof -
  have copy: "\<lparr>auth_inner = auth_inner item, auth_y_parity = auth_y_parity item, auth_r = auth_r item,
      auth_s = auth_s item\<rparr> = item" for item :: signed_authorization
    by (cases item) simp
  have "fold (\<lambda>item auth_list. auth_list @ [item]) items acc = acc @ items"
    for acc :: "signed_authorization list"
    by (induction items arbitrary: acc) simp_all
  then show ?thesis by (simp add: revm_authorizations_def copy)
qed

lemma unat_u256_from [simp]: "unat (u256_from v) = unat v"
proof -
  have "unat v < 2 ^ 128" using unsigned_less [of v, where 'a = nat] by simp
  then have "unat v < 2 ^ 256" by simp
  then show ?thesis by (simp add: u256_from_def unsigned_ucast_eq take_bit_nat_eq_self)
qed

lemma u256_from_inject [simp]: "u256_from v = u256_from w \<longleftrightarrow> v = w"
  by (metis unat_u256_from word_unat_eq_iff)

section \<open>Properties\<close>

text \<open>A transaction environment carries nothing over from its previous use: the filled
  environment depends on the envelope, the sender and the optimism fields only, so filling it
  again for another transaction gives what a fresh environment would have given.\<close>

lemma fill_tx_env_no_stale_fields:
  "fill_tx_env tx (fill_tx_env tx0 env sender0) sender = fill_tx_env tx env sender \<and>
   fill_tx_env tx (env'\<lparr>tx_optimism := tx_optimism env\<rparr>) sender = fill_tx_env tx env sender"
  by (cases tx; cases tx0; cases env; cases env') simp_all

text \<open>Fees keep their value in the conversion to 256 bits, a priority fee is set exactly for the
  transaction kinds that have one, blob data and an authorization list exactly for blob and
  set-code transactions, and the two kinds that cannot create a contract become calls.\<close>

lemma fill_tx_env_kinds:
  "(tx_gas_priority_fee (fill_tx_env tx env sender) = None \<longleftrightarrow> (\<exists>t. tx = Legacy t) \<or> (\<exists>t. tx = Eip2930 t)) \<and>
   (tx_max_fee_per_blob_gas (fill_tx_env tx env sender) \<noteq> None \<longleftrightarrow> (\<exists>t. tx = Eip4844 t)) \<and>
   (tx_authorization_list (fill_tx_env tx env sender) \<noteq> None \<longleftrightarrow> (\<exists>t. tx = Eip7702 t)) \<and>
   (\<forall>t. tx = Eip7702 t \<longrightarrow>
      tx_authorization_list (fill_tx_env tx env sender) = Some (SignedList (e7702_authorization_list t))) \<and>
   ((\<exists>t. tx = Eip4844 t) \<or> (\<exists>t. tx = Eip7702 t) \<longrightarrow>
      tx_transact_to (fill_tx_env tx env sender) \<noteq> TxCreate) \<and>
   unat (tx_gas_price (fill_tx_env tx env sender)) = (case tx of
       Legacy t \<Rightarrow> unat (legacy_gas_price t)
     | Eip2930 t \<Rightarrow> unat (e2930_gas_price t)
     | Eip1559 t \<Rightarrow> unat (e1559_max_fee_per_gas t)
     | Eip4844 t \<Rightarrow> unat (e4844_max_fee_per_gas t)
     | Eip7702 t \<Rightarrow> unat (e7702_max_fee_per_gas t))"
  by (cases tx) simp_all

end
