(* ===== verification/BuildEvm.thy ===== *)
theory BuildEvm
  imports Precompiles TxEnv
begin

text \<open>
  \<^verbatim>\<open>src/executor/config.rs\<close> and \<^verbatim>\<open>src/build_evm.rs\<close>: the configuration of the executor and the three
  EVMs it builds.  An EVM is the record of what the builders decide: the environment, the
  handler configuration, the database, the inspector with its hooks, the two storage instructions
  of the instruction table and what the output handler does to the inspector.  How revm runs such
  a value is a parameter of the executor.  The repricing of \<^verbatim>\<open>SLOAD\<close> and \<^verbatim>\<open>SSTORE\<close> is a transformation
  of an instruction; revm's gas meter (\<^verbatim>\<open>record_cost\<close>) is a parameter with the law of the locale
  \<open>gas_meter\<close>.
\<close>

section \<open>Configuration\<close>

type_synonym spec_id = u8

record executor_config =
  cfg_spec_id :: spec_id
  cfg_chain_id :: u64
  cfg_assertion_gas_limit :: u64

record ('db, 'store) assertion_executor =
  ex_db :: 'db
  ex_config :: executor_config
  ex_store :: 'store

definition executor_config_default :: "spec_id \<Rightarrow> executor_config" where
  "executor_config_default latest =
     \<lparr>cfg_spec_id = latest, cfg_chain_id = 1, cfg_assertion_gas_limit = 3000000\<rparr>"

definition with_assertion_gas_limit :: "u64 \<Rightarrow> executor_config \<Rightarrow> executor_config" where
  "with_assertion_gas_limit gas_limit c = c\<lparr>cfg_assertion_gas_limit := gas_limit\<rparr>"

definition with_spec_id :: "spec_id \<Rightarrow> executor_config \<Rightarrow> executor_config" where
  "with_spec_id s c = c\<lparr>cfg_spec_id := s\<rparr>"

definition with_chain_id :: "u64 \<Rightarrow> executor_config \<Rightarrow> executor_config" where
  "with_chain_id i c = c\<lparr>cfg_chain_id := i\<rparr>"

definition config_build :: "executor_config \<Rightarrow> 'db \<Rightarrow> 'store \<Rightarrow> ('db, 'store) assertion_executor" where
  "config_build c db store = \<lparr>ex_db = db, ex_config = c, ex_store = store\<rparr>"

definition create_optimism_fields :: "bytes option" where
  "create_optimism_fields = Some []"

section \<open>Building EVMs\<close>

record block_env =
  be_number :: u256
  be_basefee :: u256
  be_coinbase :: address
  be_timestamp :: u256
  be_gas_limit :: u256

record env =
  env_block :: block_env
  env_tx :: tx_env
  env_cfg_chain_id :: u64

record handler_cfg =
  hc_spec_id :: spec_id
  hc_is_optimism :: bool

record 'x interpreter =
  int_gas :: evm_gas
  int_out_of_gas :: bool
  int_rest :: 'x

type_synonym ('x, 'h) instruction = "'x interpreter \<times> 'h \<Rightarrow> 'x interpreter \<times> 'h"

record ('x, 'h) instructions =
  ins_sload :: "spec_id \<Rightarrow> ('x, 'h) instruction"
  ins_sstore :: "spec_id \<Rightarrow> ('x, 'h) instruction"
  record_cost :: "evm_gas \<Rightarrow> u64 \<Rightarrow> evm_gas \<times> bool"

record ('i, 'd, 'c, 'x, 'h) evm =
  evm_env_of :: env
  evm_db :: 'd
  evm_external :: 'i
  evm_handler_cfg :: handler_cfg
  evm_hooks :: "('i, 'c) inspector"
  evm_sload :: "('x, 'h) instruction"
  evm_sstore :: "('x, 'h) instruction"
  evm_output :: "journaled_state \<Rightarrow> 'i \<Rightarrow> 'i"

definition new_ctx_and_handler_cfg :: "bool \<Rightarrow> tx_env \<Rightarrow> block_env \<Rightarrow> u64 \<Rightarrow> spec_id \<Rightarrow> 'd \<Rightarrow> 'i \<Rightarrow>
    (env \<times> 'd \<times> 'i) \<times> handler_cfg" where
  "new_ctx_and_handler_cfg optimism tx block chain_id spec_id db insp =
     ((\<lparr>env_block = block, env_tx = tx, env_cfg_chain_id = chain_id\<rparr>, db, insp),
      \<lparr>hc_spec_id = spec_id, hc_is_optimism = optimism\<rparr>)"

definition new_evm :: "bool \<Rightarrow> ('x, 'h) instructions \<Rightarrow> ('i, 'd) inspector \<Rightarrow> tx_env \<Rightarrow> block_env \<Rightarrow> u64 \<Rightarrow>
    spec_id \<Rightarrow> 'd \<Rightarrow> 'i \<Rightarrow> ('i, 'd, 'd, 'x, 'h) evm" where
  "new_evm optimism ins hooks tx block chain_id spec_id db insp =
     (let ((env, db', insp'), cfg) = new_ctx_and_handler_cfg optimism tx block chain_id spec_id db insp
      in \<lparr>evm_env_of = env, evm_db = db', evm_external = insp', evm_handler_cfg = cfg, evm_hooks = hooks,
          evm_sload = ins_sload ins (hc_spec_id cfg), evm_sstore = ins_sstore ins (hc_spec_id cfg),
          evm_output = \<lambda>js i. i\<rparr>)"

definition new_tx_fork_evm :: "bool \<Rightarrow> ('x, 'h) instructions \<Rightarrow> tx_env \<Rightarrow> block_env \<Rightarrow> u64 \<Rightarrow>
    spec_id \<Rightarrow> 'd \<Rightarrow> call_tracer \<Rightarrow> (call_tracer, 'd, 'd, 'x, 'h) evm" where
  "new_tx_fork_evm optimism ins tx block chain_id spec_id db insp =
     (let ((env, db', insp'), cfg) = new_ctx_and_handler_cfg optimism tx block chain_id spec_id db insp
      in \<lparr>evm_env_of = env, evm_db = db', evm_external = insp', evm_handler_cfg = cfg,
          evm_hooks = call_tracer_inspector,
          evm_sload = ins_sload ins (hc_spec_id cfg), evm_sstore = ins_sstore ins (hc_spec_id cfg),
          evm_output = \<lambda>js ct. ct\<lparr>ct_journaled_state := Some js\<rparr>\<rparr>)"

text \<open>The repricing macro: charge the fixed cost, run the operation with unlimited gas, restore the
  gas.  When the charge fails the instruction returns out of gas and the operation is not run.\<close>

definition reprice_gas :: "('x, 'h) instructions \<Rightarrow> ('x, 'h) instruction \<Rightarrow> u64 \<Rightarrow> ('x, 'h) instruction" where
  "reprice_gas ins operation cost = (\<lambda>(interp, host).
     let (g, ok) = record_cost ins (int_gas interp) cost; interp1 = interp\<lparr>int_gas := g\<rparr>
     in if \<not> ok then (interp1\<lparr>int_out_of_gas := True\<rparr>, host)
        else let saved = int_gas interp1;
                 (interp2, host2) = operation (interp1\<lparr>int_gas := gas_new (- 1)\<rparr>, host)
             in (interp2\<lparr>int_gas := saved\<rparr>, host2))"

definition ph_sload :: "('x, 'h) instructions \<Rightarrow> spec_id \<Rightarrow> ('x, 'h) instruction" where
  "ph_sload ins spec = reprice_gas ins (ins_sload ins spec) 100"

definition ph_sstore :: "('x, 'h) instructions \<Rightarrow> spec_id \<Rightarrow> ('x, 'h) instruction" where
  "ph_sstore ins spec = reprice_gas ins (ins_sstore ins spec) 100"

definition new_phevm :: "bool \<Rightarrow> ('x, 'h) instructions \<Rightarrow> phevm_abi \<Rightarrow> tx_env \<Rightarrow> block_env \<Rightarrow> u64 \<Rightarrow>
    spec_id \<Rightarrow> 'e multi_fork_db \<Rightarrow> phevm_inspector \<Rightarrow>
    (phevm_inspector, 'e multi_fork_db, 'e evm_ctx, 'x, 'h) evm" where
  "new_phevm optimism ins abi tx block chain_id spec_id db insp =
     (let ((env, db', insp'), cfg) = new_ctx_and_handler_cfg optimism tx block chain_id spec_id db insp
      in \<lparr>evm_env_of = env, evm_db = db', evm_external = insp', evm_handler_cfg = cfg,
          evm_hooks = phevm_inspector_hooks abi,
          evm_sload = ph_sload ins spec_id, evm_sstore = ph_sstore ins spec_id,
          evm_output = \<lambda>js i. i\<rparr>)"

section \<open>The gas meter\<close>

definition record_cost_spec :: "evm_gas \<Rightarrow> u64 \<Rightarrow> evm_gas \<times> bool" where
  "record_cost_spec g cost =
     (if cost \<le> gas_remaining g then (g\<lparr>gas_remaining := gas_remaining g - cost\<rparr>, True) else (g, False))"

definition sample_instructions :: "(unit, nat) instructions" where
  "sample_instructions =
     \<lparr>ins_sload = \<lambda>_ (i, h). (i\<lparr>int_gas := fst (record_cost_spec (int_gas i) 2100)\<rparr>, h),
      ins_sstore = \<lambda>_ (i, h). (i\<lparr>int_gas := fst (record_cost_spec (int_gas i) 20000)\<rparr>, Suc h),
      record_cost = record_cost_spec\<rparr>"

locale gas_meter =
  fixes ins :: "('x, 'h) instructions"
  assumes charges: "cost \<le> gas_remaining g \<Longrightarrow>
      record_cost ins g cost = (g\<lparr>gas_remaining := gas_remaining g - cost\<rparr>, True)"
    and refuses: "gas_remaining g < cost \<Longrightarrow> record_cost ins g cost = (g, False)"
begin

lemma repriced_runs:
  assumes "cost \<le> gas_remaining (int_gas i)"
    and "operation (i\<lparr>int_gas := gas_new (- 1)\<rparr>, h) = (i', h')"
  shows "reprice_gas ins operation cost (i, h) =
    (i'\<lparr>int_gas := (int_gas i)\<lparr>gas_remaining := gas_remaining (int_gas i) - cost\<rparr>\<rparr>, h')"
  using assms by (simp add: reprice_gas_def charges)

lemma repriced_out_of_gas:
  assumes "gas_remaining (int_gas i) < cost"
  shows "reprice_gas ins operation cost (i, h) = (i\<lparr>int_out_of_gas := True\<rparr>, h)"
  using assms by (simp add: reprice_gas_def refuses)

end

interpretation sample_gas: gas_meter sample_instructions
  by unfold_locales (simp_all add: sample_instructions_def record_cost_spec_def)

section \<open>Properties\<close>

text \<open>C40. In the EVM that runs assertions, the storage instructions cost exactly 100 gas whatever
  the original instruction charges (its refund and its charge are discarded), the original
  instruction still runs with an unlimited meter, and when fewer than 100 gas remain the
  instruction stops out of gas without running it, leaving the host untouched.\<close>

theorem repriced_storage_cost:
  assumes "gas_meter ins"
    and "ev = new_phevm optimism ins abi tx block chain_id spec db insp"
    and "(op, orig) \<in> {(evm_sload ev, ins_sload ins spec), (evm_sstore ev, ins_sstore ins spec)}"
  shows "op (i, h) =
    (if gas_remaining (int_gas i) < 100 then (i\<lparr>int_out_of_gas := True\<rparr>, h)
     else let (i', h') = orig (i\<lparr>int_gas := gas_new (- 1)\<rparr>, h)
          in (i'\<lparr>int_gas := (int_gas i)\<lparr>gas_remaining := gas_remaining (int_gas i) - 100\<rparr>\<rparr>, h'))"
proof -
  have op: "op = reprice_gas ins orig 100"
    using assms(2,3) by (auto simp: new_phevm_def new_ctx_and_handler_cfg_def ph_sload_def ph_sstore_def)
  show ?thesis
  proof (cases "gas_remaining (int_gas i) < 100")
    case True
    then show ?thesis by (simp add: op gas_meter.repriced_out_of_gas [OF assms(1)])
  next
    case False
    obtain i' h' where o: "orig (i\<lparr>int_gas := gas_new (- 1)\<rparr>, h) = (i', h')" by fastforce
    from False have "100 \<le> gas_remaining (int_gas i)" by simp
    from gas_meter.repriced_runs [where operation = orig, OF assms(1) this o] False o show ?thesis by (simp add: op)
  qed
qed

theorem repriced_storage_cost_witness:
  "gas_remaining (int_gas (fst (evm_sstore (new_phevm False sample_instructions sample_phevm_abi
      \<lparr>tx_caller = 0, tx_gas_limit = 0, tx_gas_price = 0, tx_transact_to = TxCreate, tx_value = 0,
       tx_data = [], tx_nonce = None, tx_chain_id = None, tx_access_list = [], tx_gas_priority_fee = None,
       tx_blob_hashes = [], tx_max_fee_per_blob_gas = None, tx_authorization_list = None, tx_optimism = None\<rparr>
      \<lparr>be_number = 1, be_basefee = 0, be_coinbase = 0, be_timestamp = 0, be_gas_limit = 0\<rparr> 1 17
      (ctx_db sample_ctx) sample_inspector)
      (\<lparr>int_gas = gas_new 500, int_out_of_gas = False, int_rest = ()\<rparr>, 0)))) = 400"
proof -
  let ?ev = "new_phevm False sample_instructions sample_phevm_abi
      \<lparr>tx_caller = 0, tx_gas_limit = 0, tx_gas_price = 0, tx_transact_to = TxCreate, tx_value = 0,
       tx_data = [], tx_nonce = None, tx_chain_id = None, tx_access_list = [], tx_gas_priority_fee = None,
       tx_blob_hashes = [], tx_max_fee_per_blob_gas = None, tx_authorization_list = None, tx_optimism = None\<rparr>
      \<lparr>be_number = 1, be_basefee = 0, be_coinbase = 0, be_timestamp = 0, be_gas_limit = 0\<rparr> 1 17
      (ctx_db sample_ctx) sample_inspector"
  have "(evm_sstore ?ev, ins_sstore sample_instructions 17) \<in>
      {(evm_sload ?ev, ins_sload sample_instructions 17), (evm_sstore ?ev, ins_sstore sample_instructions 17)}"
    by simp
  from repriced_storage_cost [OF sample_gas.gas_meter_axioms refl this] show ?thesis
    by (simp add: gas_new_def sample_instructions_def)
qed

end
