(* ===== verification/AssertionStore.thy ===== *)
theory AssertionStore
  imports Triggers
begin

text \<open>
  \<^verbatim>\<open>src/store/mod.rs\<close> and \<^verbatim>\<open>src/store/assertion_store.rs\<close>: which assertions an adopter has, and
  which of them run at a block.  The store is one \<^verbatim>\<open>sled\<close> tree from adopter addresses to the
  serialized list of assertion states; sled and bincode are parameters (\<open>sled_ops\<close>, \<open>bincode\<close>) whose
  documented behaviour is the locale \<open>assertion_db\<close>.  The compare-and-swap loop of
  \<^verbatim>\<open>apply_pending_modification\<close> runs against an arbitrary environment that may change the tree between
  the read and the swap of every attempt; a loop that never ends is the value \<^term>\<open>None\<close>.
  The lemmas show what the loop promises under interference, that grouping a batch by adopter
  equals applying it in order, and which assertions and selectors a read selects.
\<close>

section \<open>Data\<close>

datatype pending_modification =
    AddMod (mod_adopter: address) (add_contract: assertion_contract) (add_recorder: trigger_recorder)
      (add_active_at_block: u64) (mod_log_index: u64)
  | RemoveMod (mod_adopter: address) (remove_contract_id: b256) (remove_inactive_at_block: u64)
      (mod_log_index: u64)

fun pm_assertion_adopter :: "pending_modification \<Rightarrow> address" where
  "pm_assertion_adopter (AddMod a c r act li) = a"
| "pm_assertion_adopter (RemoveMod a cid inact li) = a"

fun pm_assertion_contract_id :: "pending_modification \<Rightarrow> b256" where
  "pm_assertion_contract_id (AddMod a c r act li) = ac_id c"
| "pm_assertion_contract_id (RemoveMod a cid inact li) = cid"

text \<open>\<^verbatim>\<open>bincode::Error\<close> absorbs I/O errors: \<^verbatim>\<open>?\<close> on a tree operation inside a closure that returns it
  wraps the error of the tree.\<close>

datatype ('i, 'b) bincode_error = BincodeIo 'i | BincodeCodec 'b

datatype ('i, 'b) assertion_store_error =
    SledError 'i
  | BincodeError "('i, 'b) bincode_error"
  | BlockNumberExceedsU64

record assertions_for_execution =
  afe_assertion_contract :: assertion_contract
  afe_selectors :: "fn_selector list"
  afe_adopter :: address

record assertion_state =
  active_at_block :: u64
  inactive_at_block :: "u64 option"
  as_assertion_contract :: assertion_contract
  as_trigger_recorder :: trigger_recorder

definition as_assertion_contract_id :: "assertion_state \<Rightarrow> b256" where
  "as_assertion_contract_id a = ac_id (as_assertion_contract a)"

text \<open>The tree and the serializer.  Stored values are opaque blobs, so their type is a variable.\<close>

record ('s, 'v, 'i) sled_ops =
  sled_get :: "'s \<Rightarrow> bytes \<Rightarrow> ('i, 'v option) result"
  sled_insert :: "'s \<Rightarrow> bytes \<Rightarrow> 'v \<Rightarrow> ('i, 'v option) result \<times> 's"
  sled_compare_and_swap :: "'s \<Rightarrow> bytes \<Rightarrow> 'v option \<Rightarrow> 'v option \<Rightarrow>
    ('i, ('v option, unit) result) result \<times> 's"

record ('v, 'b) bincode =
  ser :: "assertion_state list \<Rightarrow> ('b, 'v) result"
  de :: "'v \<Rightarrow> ('b, assertion_state list) result"

definition address_bytes :: "address \<Rightarrow> bytes" where
  "address_bytes a = map of_nat (be_digits 20 (unat a))"

section \<open>Opening\<close>

text \<open>The store is the tree it is given.  A store without persistence opens one: sled's temporary configuration
  and its \<^verbatim>\<open>open\<close> are parameters.\<close>

definition store_new :: "'s \<Rightarrow> 's" where
  "store_new active_assertions_tree = active_assertions_tree"

definition new_ephemeral :: "('i, 'c) result \<Rightarrow> ('c \<Rightarrow> ('i, 's) result) \<Rightarrow>
    (('i, 'b) assertion_store_error, 's) result" where
  "new_ephemeral config_tmp config_open =
     result_bind (map_err SledError config_tmp) (\<lambda>config.
     result_bind (map_err SledError (config_open config)) (\<lambda>db.
     Inr (store_new db)))"

section \<open>Writing\<close>

primrec update_first :: "('a \<Rightarrow> bool) \<Rightarrow> ('a \<Rightarrow> 'a) \<Rightarrow> 'a list \<Rightarrow> 'a list option" where
  "update_first P f [] = None"
| "update_first P f (x # xs) = (if P x then Some (f x # xs) else map_option ((#) x) (update_first P f xs))"

definition decode_states :: "('v, 'b) bincode \<Rightarrow> 'v option \<Rightarrow>
    (('i, 'b) assertion_store_error, assertion_state list) result" where
  "decode_states bc serialized = (case serialized of
       None \<Rightarrow> Inr []
     | Some v \<Rightarrow> map_err (\<lambda>e. BincodeError (BincodeCodec e)) (de bc v))"

definition load_states :: "('s, 'v, 'i) sled_ops \<Rightarrow> ('v, 'b) bincode \<Rightarrow> 's \<Rightarrow> address \<Rightarrow>
    (('i, 'b) assertion_store_error, assertion_state list) result" where
  "load_states ops bc db adopter =
     result_bind (map_err SledError (sled_get ops db (address_bytes adopter))) (decode_states bc)"

definition store_insert :: "('s, 'v, 'i) sled_ops \<Rightarrow> ('v, 'b) bincode \<Rightarrow> 's \<Rightarrow> address \<Rightarrow>
    assertion_state \<Rightarrow> (('i, 'b) assertion_store_error, assertion_state option) result \<times> 's" where
  "store_insert ops bc db adopter assertion =
     (case load_states ops bc db adopter of
        Inl e \<Rightarrow> (Inl e, db)
      | Inr assertions \<Rightarrow>
          let same = (\<lambda>a. as_assertion_contract_id a = as_assertion_contract_id assertion);
              previous = find same assertions;
              assertions' = (case update_first same (\<lambda>_. assertion) assertions of
                  Some as \<Rightarrow> as | None \<Rightarrow> assertions @ [assertion])
          in case ser bc assertions' of
               Inl e \<Rightarrow> (Inl (BincodeError (BincodeCodec e)), db)
             | Inr v \<Rightarrow> (case sled_insert ops db (address_bytes adopter) v of
                   (Inl e, db') \<Rightarrow> (Inl (SledError e), db')
                 | (Inr _, db') \<Rightarrow> (Inr previous, db')))"

fun apply_modification :: "pending_modification \<Rightarrow> assertion_state list \<Rightarrow> assertion_state list" where
  "apply_modification (AddMod adopter contract recorder active li) assertions =
     (case update_first (\<lambda>a. as_assertion_contract_id a = ac_id contract)
             (\<lambda>st. st\<lparr>active_at_block := active\<rparr>) assertions of
        Some as \<Rightarrow> as
      | None \<Rightarrow> assertions @ [\<lparr>active_at_block = active, inactive_at_block = None,
                  as_assertion_contract = contract, as_trigger_recorder = recorder\<rparr>])"
| "apply_modification (RemoveMod adopter cid inactive li) assertions =
     (case update_first (\<lambda>a. as_assertion_contract_id a = cid)
             (\<lambda>st. st\<lparr>inactive_at_block := Some inactive\<rparr>) assertions of
        Some as \<Rightarrow> as
      | None \<Rightarrow> assertions)"

text \<open>
  One turn of the compare-and-swap loop: it ends with a result (\<^term>\<open>Inl\<close>) or asks for another
  turn.  \<open>env\<close> is what other users of the tree do between the read and the swap.
\<close>

definition cas_attempt ::
  "('s, 'v, 'i) sled_ops \<Rightarrow> ('v, 'b) bincode \<Rightarrow> ('s \<Rightarrow> 's) \<Rightarrow> address \<Rightarrow>
   pending_modification list \<Rightarrow> 's \<Rightarrow> (('i, 'b) assertion_store_error, unit) result \<times> 's + 's" where
  "cas_attempt ops bc env adopter mods db =
     (case sled_get ops db (address_bytes adopter) of
        Inl e \<Rightarrow> Inl (Inl (SledError e), db)
      | Inr serialized \<Rightarrow>
          (case decode_states bc serialized of
             Inl e \<Rightarrow> Inl (Inl e, db)
           | Inr assertions \<Rightarrow>
               let assertions' = fold apply_modification mods assertions;
                   db1 = env db
               in case ser bc assertions' of
                    Inl e \<Rightarrow> Inl (Inl (BincodeError (BincodeCodec e)), db1)
                  | Inr v \<Rightarrow>
                      let (r, db2) = sled_compare_and_swap ops db1 (address_bytes adopter) serialized (Some v)
                      in (case r of
                            Inr (Inr _) \<Rightarrow> Inl (Inr (), db2)
                          | _ \<Rightarrow> Inr db2)))"

partial_function (option) apply_pending_modification ::
  "('s, 'v, 'i) sled_ops \<Rightarrow> ('v, 'b) bincode \<Rightarrow> (nat \<Rightarrow> 's \<Rightarrow> 's) \<Rightarrow> address \<Rightarrow>
   pending_modification list \<Rightarrow> nat \<Rightarrow> 's \<Rightarrow> ((('i, 'b) assertion_store_error, unit) result \<times> 's) option" where
  "apply_pending_modification ops bc env adopter mods n db =
     (case cas_attempt ops bc (env n) adopter mods db of
        Inl final \<Rightarrow> Some final
      | Inr db2 \<Rightarrow> apply_pending_modification ops bc env adopter mods (Suc n) db2)"

definition group_by_adopter ::
  "pending_modification list \<Rightarrow> (address, pending_modification list) hash_map" where
  "group_by_adopter mods =
     fold (\<lambda>m. hm_entry (pm_assertion_adopter m) [] (\<lambda>ms. ms @ [m])) mods []"

text \<open>\<open>iter\<close> is the iteration order of the hash map of groups.\<close>

primrec apply_groups :: "('s, 'v, 'i) sled_ops \<Rightarrow> ('v, 'b) bincode \<Rightarrow> (address \<Rightarrow> nat \<Rightarrow> 's \<Rightarrow> 's) \<Rightarrow>
    (address \<times> pending_modification list) list \<Rightarrow> 's \<Rightarrow>
    ((('i, 'b) assertion_store_error, unit) result \<times> 's) option" where
  "apply_groups ops bc env [] db = Some (Inr (), db)"
| "apply_groups ops bc env (g # gs) db =
     (case apply_pending_modification ops bc (env (fst g)) (fst g) (snd g) 0 db of
        None \<Rightarrow> None
      | Some (Inl e, db') \<Rightarrow> Some (Inl e, db')
      | Some (Inr _, db') \<Rightarrow> apply_groups ops bc env gs db')"

definition apply_pending_modifications :: "('s, 'v, 'i) sled_ops \<Rightarrow> ('v, 'b) bincode \<Rightarrow>
    (address \<Rightarrow> nat \<Rightarrow> 's \<Rightarrow> 's) \<Rightarrow>
    ((address, pending_modification list) hash_map \<Rightarrow> (address \<times> pending_modification list) list) \<Rightarrow>
    pending_modification list \<Rightarrow> 's \<Rightarrow> ((('i, 'b) assertion_store_error, unit) result \<times> 's) option" where
  "apply_pending_modifications ops bc env iter mods db =
     apply_groups ops bc env (iter (group_by_adopter mods)) db"

section \<open>Reading\<close>

definition u64_max :: u64 where "u64_max = -1"

definition is_active :: "u64 \<Rightarrow> assertion_state \<Rightarrow> bool" where
  "is_active block a =
     (let inactive_block = (case inactive_at_block a of
            Some inactive_block \<Rightarrow> if inactive_block < active_at_block a then u64_max else inactive_block
          | None \<Rightarrow> u64_max);
          in_bound_start = (active_at_block a \<le> block);
          in_bound_end = (block < inactive_block)
      in in_bound_start \<and> in_bound_end)"

definition recorder_selectors :: "trigger_recorder \<Rightarrow> trigger_type \<Rightarrow> fn_selector hash_set" where
  "recorder_selectors tr t = (case hm_get (recorded_triggers tr) t of None \<Rightarrow> [] | Some ss \<Rightarrow> ss)"

definition is_call_trigger :: "trigger_type \<Rightarrow> bool" where
  "is_call_trigger t = (case t of Call _ \<Rightarrow> True | _ \<Rightarrow> False)"

definition is_storage_trigger :: "trigger_type \<Rightarrow> bool" where
  "is_storage_trigger t = (case t of StorageChange _ \<Rightarrow> True | _ \<Rightarrow> False)"

definition matching_selectors :: "trigger_type hash_set \<Rightarrow> trigger_recorder \<Rightarrow> fn_selector list" where
  "matching_selectors ts tr =
     (let step = (\<lambda>t (all, has_call, has_storage).
            (hs_extend all (recorder_selectors tr t),
             has_call \<or> is_call_trigger t, has_storage \<or> is_storage_trigger t));
          (all, has_call, has_storage) = fold step ts ([], False, False);
          all1 = (if has_call then hs_extend all (recorder_selectors tr AllCalls) else all);
          all2 = (if has_storage then hs_extend all1 (recorder_selectors tr AllStorageChanges) else all1)
      in all2)"

text \<open>The read of an adopter's states: an error of the tree is reported as one of the serializer.\<close>

definition read_states :: "('s, 'v, 'i) sled_ops \<Rightarrow> ('v, 'b) bincode \<Rightarrow> 's \<Rightarrow> address \<Rightarrow>
    (('i, 'b) assertion_store_error, assertion_state list) result" where
  "read_states ops bc db adopter =
     result_bind (map_err (\<lambda>e. BincodeError (BincodeIo e)) (sled_get ops db (address_bytes adopter))) (decode_states bc)"

definition read_adopter :: "('s, 'v, 'i) sled_ops \<Rightarrow> ('v, 'b) bincode \<Rightarrow> 's \<Rightarrow> address \<Rightarrow>
    trigger_type hash_set \<Rightarrow> u64 \<Rightarrow>
    (('i, 'b) assertion_store_error, (assertion_contract \<times> fn_selector list) list) result" where
  "read_adopter ops bc db adopter ts block =
     result_bind (read_states ops bc db adopter) (\<lambda>states.
       Inr (map (\<lambda>a. (as_assertion_contract a, matching_selectors ts (as_trigger_recorder a)))
              (filter (is_active block) states)))"

definition try_into_u64 :: "u256 \<Rightarrow> u64 option" where
  "try_into_u64 v = (if unat v < 2 ^ 64 then Some (ucast v) else None)"

definition store_read :: "('s, 'v, 'i) sled_ops \<Rightarrow> ('v, 'b) bincode \<Rightarrow> 's \<Rightarrow> call_tracer \<Rightarrow> u256 \<Rightarrow>
    (('i, 'b) assertion_store_error, assertions_for_execution list) result" where
  "store_read ops bc db traces block_num =
     result_bind (ok_or BlockNumberExceedsU64 (try_into_u64 block_num)) (\<lambda>block.
       result_fold (\<lambda>assertions (contract_address, ts).
           result_bind (read_adopter ops bc db contract_address ts block) (\<lambda>contract_assertions.
             Inr (assertions @ map (\<lambda>(c, ss). \<lparr>afe_assertion_contract = c, afe_selectors = ss,
                    afe_adopter = contract_address\<rparr>) contract_assertions)))
         [] (triggers traces))"

definition get_assertions_for_contract ::
  "('s, 'v, 'i) sled_ops \<Rightarrow> ('v, 'b) bincode \<Rightarrow> 's \<Rightarrow> address \<Rightarrow> assertion_state list" where
  "get_assertions_for_contract ops bc db adopter =
     (case sled_get ops db (address_bytes adopter) of
        Inr (Some v) \<Rightarrow> (case de bc v of Inr as \<Rightarrow> as | Inl _ \<Rightarrow> [])
      | _ \<Rightarrow> [])"

definition assertion_contract_count ::
  "('s, 'v, 'i) sled_ops \<Rightarrow> ('v, 'b) bincode \<Rightarrow> 's \<Rightarrow> address \<Rightarrow> nat" where
  "assertion_contract_count ops bc db adopter = length (get_assertions_for_contract ops bc db adopter)"

section \<open>What the store promises\<close>

text \<open>The assertions an adopter has, read off the content of the tree.\<close>

definition stored :: "('v, 'b) bincode \<Rightarrow> (bytes \<Rightarrow> 'v option) \<Rightarrow> address \<Rightarrow> assertion_state list" where
  "stored bc ct a = (case ct (address_bytes a) of
       None \<Rightarrow> [] | Some v \<Rightarrow> (case de bc v of Inr as \<Rightarrow> as | Inl _ \<Rightarrow> []))"

definition readable :: "('v, 'b) bincode \<Rightarrow> (bytes \<Rightarrow> 'v option) \<Rightarrow> address \<Rightarrow> bool" where
  "readable bc ct a = (case ct (address_bytes a) of
       None \<Rightarrow> True | Some v \<Rightarrow> (case de bc v of Inr _ \<Rightarrow> True | Inl _ \<Rightarrow> False))"

text \<open>The abstract store: a batch is applied one modification at a time, in order.\<close>

type_synonym abstract_store = "address \<Rightarrow> assertion_state list"

definition abstract_apply :: "pending_modification \<Rightarrow> abstract_store \<Rightarrow> abstract_store" where
  "abstract_apply m st = st(pm_assertion_adopter m := apply_modification m (st (pm_assertion_adopter m)))"

text \<open>Which assertion functions a set of fired triggers selects.\<close>

definition selects :: "trigger_recorder \<Rightarrow> trigger_type set \<Rightarrow> fn_selector \<Rightarrow> bool" where
  "selects tr ts s \<longleftrightarrow> (\<exists>t \<in> ts. s \<in> registered tr t) \<or>
     ((\<exists>t \<in> ts. is_call_trigger t) \<and> s \<in> registered tr AllCalls) \<or>
     ((\<exists>t \<in> ts. is_storage_trigger t) \<and> s \<in> registered tr AllStorageChanges)"

definition distinct_ids :: "assertion_state list \<Rightarrow> bool" where
  "distinct_ids as = distinct (map as_assertion_contract_id as)"

definition assertion_of :: "b256 \<Rightarrow> assertion_state list \<Rightarrow> assertion_state option" where
  "assertion_of i as = find (\<lambda>a. as_assertion_contract_id a = i) as"

text \<open>A tree held in a map, and a serializer that keeps the value: the instance the contract is
  checked on.\<close>

definition map_sled :: "(bytes \<Rightarrow> 'v option, 'v, unit) sled_ops" where
  "map_sled = \<lparr>sled_get = \<lambda>m k. Inr (m k),
     sled_insert = \<lambda>m k v. (Inr (m k), m(k \<mapsto> v)),
     sled_compare_and_swap = \<lambda>m k old new.
       if m k = old then (Inr (Inr ()), m(k := new)) else (Inr (Inl (m k)), m)\<rparr>"

definition plain_bincode :: "(assertion_state list, unit) bincode" where
  "plain_bincode = \<lparr>ser = Inr, de = Inr\<rparr>"

locale assertion_db =
  fixes ops :: "('s, 'v, 'i) sled_ops" and bc :: "('v, 'b) bincode"
    and content :: "'s \<Rightarrow> bytes \<Rightarrow> 'v option"
  assumes get_content: "sled_get ops db k = Inr cur \<Longrightarrow> cur = content db k"
    and insert_content: "sled_insert ops db k v = (Inr old, db') \<Longrightarrow> content db' = (content db)(k \<mapsto> v)"
    and cas_swapped: "sled_compare_and_swap ops db k old new = (Inr (Inr u), db') \<Longrightarrow>
      content db k = old \<and> content db' = (content db)(k := new)"
    and cas_conflict: "sled_compare_and_swap ops db k old new = (Inr (Inl found), db') \<Longrightarrow>
      content db k \<noteq> old \<and> content db' = content db"
    and codec: "ser bc as = Inr v \<Longrightarrow> de bc v = Inr as"

locale assertion_db_available = assertion_db ops bc content
  for ops :: "('s, 'v, 'i) sled_ops" and bc :: "('v, 'b) bincode" and content +
  assumes get_available: "\<exists>v. sled_get ops db k = Inr v"
    and cas_available: "\<exists>r db'. sled_compare_and_swap ops db k old new = (Inr r, db')"
    and ser_available: "\<exists>v. ser bc as = Inr v"

text \<open>The turns the loop of one key loses, from turn \<open>n\<close> on the tree \<open>db\<close> to turn \<open>m\<close> on the tree \<open>d\<close>, as other
  users of the tree see them: a turn is lost because they changed the entry since it was read, and then
  leaves the tree as they left it, or because the swap reports an error of the tree.\<close>

inductive lost_turns :: "('s, 'v, 'i) sled_ops \<Rightarrow> ('s \<Rightarrow> bytes \<Rightarrow> 'v option) \<Rightarrow> (nat \<Rightarrow> 's \<Rightarrow> 's) \<Rightarrow> bytes \<Rightarrow>
    nat \<Rightarrow> 's \<Rightarrow> nat \<Rightarrow> 's \<Rightarrow> bool" for ops content env k where
  no_turn: "lost_turns ops content env k n db n db"
| lost_to_others: "content (env n db) k \<noteq> content db k \<Longrightarrow> content db1 = content (env n db) \<Longrightarrow>
    lost_turns ops content env k (Suc n) db1 m d \<Longrightarrow> lost_turns ops content env k n db m d"
| lost_to_error: "sled_compare_and_swap ops (env n db) k old new = (Inl e, db1) \<Longrightarrow>
    lost_turns ops content env k (Suc n) db1 m d \<Longrightarrow> lost_turns ops content env k n db m d"

section \<open>Lemmas\<close>

lemma lost_turns_trans:
  "lost_turns ops content env k n db m d \<Longrightarrow> lost_turns ops content env k m d m' d' \<Longrightarrow>
   lost_turns ops content env k n db m' d'"
  by (induction rule: lost_turns.induct) (auto intro: lost_turns.intros)

lemma lost_turns_le: "lost_turns ops content env k n db m d \<Longrightarrow> n \<le> m"
  by (induction rule: lost_turns.induct) simp_all

lemma lost_no_turn: "lost_turns ops content env k n db n d \<Longrightarrow> d = db"
  by (erule lost_turns.cases) (blast dest: lost_turns_le Suc_n_not_le_n [THEN notE])+

interpretation map_db: assertion_db_available map_sled plain_bincode "\<lambda>m. m"
proof unfold_locales
  fix db :: "bytes \<Rightarrow> assertion_state list option" and k :: bytes and cur
  assume "sled_get map_sled db k = Inr cur"
  then show "cur = db k" by (simp add: map_sled_def)
next
  fix db :: "bytes \<Rightarrow> assertion_state list option" and k :: bytes and v old db'
  assume "sled_insert map_sled db k v = (Inr old, db')"
  then show "db' = db(k \<mapsto> v)" by (simp add: map_sled_def)
next
  fix db :: "bytes \<Rightarrow> assertion_state list option" and k :: bytes and old new u db'
  assume "sled_compare_and_swap map_sled db k old new = (Inr (Inr u), db')"
  then show "db k = old \<and> db' = db(k := new)" by (auto simp: map_sled_def split: if_splits)
next
  fix db :: "bytes \<Rightarrow> assertion_state list option" and k :: bytes and old new found db'
  assume "sled_compare_and_swap map_sled db k old new = (Inr (Inl found), db')"
  then show "db k \<noteq> old \<and> db' = db" by (cases "db k = old") (simp_all add: map_sled_def)
qed (simp_all add: map_sled_def plain_bincode_def)

lemma readable_plain [simp]: "readable plain_bincode ct a"
  by (simp add: readable_def plain_bincode_def split: option.split)

lemma be_digits_inj: "m < 256 ^ k \<Longrightarrow> n < 256 ^ k \<Longrightarrow> be_digits k m = be_digits k n \<Longrightarrow> m = n"
  by (metis foldl_be_digits mod_less)

lemma address_bytes_inj: "address_bytes a = address_bytes b \<longleftrightarrow> a = b"
proof
  assume "address_bytes a = address_bytes b"
  then have "map (unat :: u8 \<Rightarrow> nat) (address_bytes a) = map unat (address_bytes b)" by simp
  moreover have "map (unat \<circ> (of_nat :: nat \<Rightarrow> u8)) (be_digits 20 n) = be_digits 20 n" for n
    by (rule map_idI) (use be_digits_bound [of _ 20 n] in \<open>auto simp: unat_of_nat\<close>)
  ultimately have "be_digits 20 (unat a) = be_digits 20 (unat b)"
    by (simp add: address_bytes_def del: be_digits.simps)
  moreover have "unat a < 256 ^ 20" "unat b < 256 ^ 20"
    using unsigned_less [of a] unsigned_less [of b] by simp_all
  ultimately show "a = b" using be_digits_inj word_unat_eq_iff by blast
qed simp

lemma update_first_None: "update_first P f xs = None \<longleftrightarrow> (\<forall>x \<in> set xs. \<not> P x)"
  by (induction xs) auto

lemma update_first_map:
  "(\<And>x. P x \<Longrightarrow> g (f x) = g x) \<Longrightarrow> update_first P f xs = Some ys \<Longrightarrow> map g ys = map g xs"
  by (induction xs arbitrary: ys) (auto split: if_splits)

lemma find_update_first:
  "(\<And>x. P x \<Longrightarrow> Q (f x) = Q x) \<Longrightarrow> update_first P f xs = Some ys \<Longrightarrow> (\<And>x. P x \<Longrightarrow> \<not> Q x) \<Longrightarrow>
   find Q ys = find Q xs"
  by (induction xs arbitrary: ys) (auto split: if_splits)

lemma find_update_first_same:
  "(\<And>x. P x \<Longrightarrow> P (f x)) \<Longrightarrow> update_first P f xs = Some ys \<Longrightarrow> find P ys = map_option f (find P xs)"
  by (induction xs arbitrary: ys) (auto split: if_splits)

lemma find_append: "find P (xs @ ys) = (case find P xs of None \<Rightarrow> find P ys | Some x \<Rightarrow> Some x)"
  by (induction xs) auto

lemma find_None_update: "find P xs = None \<longleftrightarrow> update_first P f xs = None"
  by (auto simp: find_None_iff update_first_None)

lemma apply_add_assertion_of:
  "assertion_of i (apply_modification (AddMod a c r act li) as) =
     (if i = ac_id c then Some (case assertion_of i as of
          Some st \<Rightarrow> st\<lparr>active_at_block := act\<rparr>
        | None \<Rightarrow> \<lparr>active_at_block = act, inactive_at_block = None, as_assertion_contract = c,
                  as_trigger_recorder = r\<rparr>)
      else assertion_of i as)"
proof (cases "update_first (\<lambda>a. as_assertion_contract_id a = ac_id c) (\<lambda>st. st\<lparr>active_at_block := act\<rparr>) as")
  case None
  then have "find (\<lambda>a. as_assertion_contract_id a = ac_id c) as = None"
    by (simp add: find_None_iff update_first_None)
  with None show ?thesis
    by (auto simp: assertion_of_def find_append as_assertion_contract_id_def split: option.splits)
next
  case (Some ys)
  then have "find (\<lambda>a. as_assertion_contract_id a = ac_id c) as \<noteq> None"
    using find_None_update by (metis option.distinct(1))
  moreover have "find (\<lambda>a. as_assertion_contract_id a = ac_id c) ys =
      map_option (\<lambda>st. st\<lparr>active_at_block := act\<rparr>) (find (\<lambda>a. as_assertion_contract_id a = ac_id c) as)"
    by (rule find_update_first_same [OF _ Some]) (simp add: as_assertion_contract_id_def)
  moreover have "find (\<lambda>a. as_assertion_contract_id a = i) ys = find (\<lambda>a. as_assertion_contract_id a = i) as"
    if "i \<noteq> ac_id c"
    by (rule find_update_first [OF _ Some]) (use that in \<open>auto simp: as_assertion_contract_id_def\<close>)
  ultimately show ?thesis by (auto simp: assertion_of_def Some)
qed

lemma added_in_list:
  assumes "assertion_of (ac_id c) as = None"
  shows "\<lparr>active_at_block = act, inactive_at_block = None, as_assertion_contract = c,
    as_trigger_recorder = r\<rparr> \<in> set (apply_modification (AddMod a c r act li) as)"
proof -
  from assms have "update_first (\<lambda>a. as_assertion_contract_id a = ac_id c)
      (\<lambda>st. st\<lparr>active_at_block := act\<rparr>) as = None"
    unfolding assertion_of_def by (simp add: find_None_update [symmetric])
  then show ?thesis by simp
qed

lemma apply_remove_assertion_of:
  "assertion_of i (apply_modification (RemoveMod a cid inact li) as) =
     (if i = cid then map_option (\<lambda>st. st\<lparr>inactive_at_block := Some inact\<rparr>) (assertion_of i as)
      else assertion_of i as)"
proof (cases "update_first (\<lambda>a. as_assertion_contract_id a = cid) (\<lambda>st. st\<lparr>inactive_at_block := Some inact\<rparr>) as")
  case None
  then have "find (\<lambda>a. as_assertion_contract_id a = cid) as = None"
    by (simp add: find_None_iff update_first_None)
  with None show ?thesis by (simp add: assertion_of_def)
next
  case (Some ys)
  have "find (\<lambda>a. as_assertion_contract_id a = cid) ys =
      map_option (\<lambda>st. st\<lparr>inactive_at_block := Some inact\<rparr>) (find (\<lambda>a. as_assertion_contract_id a = cid) as)"
    by (rule find_update_first_same [OF _ Some]) (simp add: as_assertion_contract_id_def)
  moreover have "find (\<lambda>a. as_assertion_contract_id a = i) ys = find (\<lambda>a. as_assertion_contract_id a = i) as"
    if "i \<noteq> cid"
    by (rule find_update_first [OF _ Some]) (use that in \<open>auto simp: as_assertion_contract_id_def\<close>)
  ultimately show ?thesis by (auto simp: assertion_of_def Some)
qed

lemma apply_modification_distinct:
  assumes "distinct_ids as"
  shows "distinct_ids (apply_modification m as)"
proof (cases m)
  case (AddMod a c r act li)
  let ?u = "update_first (\<lambda>a. as_assertion_contract_id a = ac_id c) (\<lambda>st. st\<lparr>active_at_block := act\<rparr>) as"
  show ?thesis
  proof (cases ?u)
    case None
    then have "ac_id c \<notin> as_assertion_contract_id ` set as" by (auto simp: update_first_None)
    with assms show ?thesis
      by (simp add: AddMod None distinct_ids_def, simp add: as_assertion_contract_id_def)
  next
    case (Some ys)
    have "map as_assertion_contract_id ys = map as_assertion_contract_id as"
      by (rule update_first_map [OF _ Some]) (simp add: as_assertion_contract_id_def)
    with assms show ?thesis by (simp add: AddMod Some distinct_ids_def)
  qed
next
  case (RemoveMod a cid inact li)
  let ?u = "update_first (\<lambda>a. as_assertion_contract_id a = cid) (\<lambda>st. st\<lparr>inactive_at_block := Some inact\<rparr>) as"
  show ?thesis
  proof (cases ?u)
    case None
    with assms show ?thesis by (simp add: RemoveMod)
  next
    case (Some ys)
    have "map as_assertion_contract_id ys = map as_assertion_contract_id as"
      by (rule update_first_map [OF _ Some]) (simp add: as_assertion_contract_id_def)
    with assms show ?thesis by (simp add: RemoveMod Some distinct_ids_def)
  qed
qed

lemma group_get:
  "hm_get (fold (\<lambda>m. hm_entry (pm_assertion_adopter m) [] (\<lambda>ms. ms @ [m])) mods g) a =
     (let ms = filter (\<lambda>m. pm_assertion_adopter m = a) mods
      in case hm_get g a of
           None \<Rightarrow> if ms = [] then None else Some ms
         | Some old \<Rightarrow> Some (old @ ms))"
  by (induction mods arbitrary: g) (auto simp: Let_def split: option.splits)

lemma group_ok: "hm_ok (group_by_adopter mods)"
proof -
  have "hm_ok (fold (\<lambda>m. hm_entry (pm_assertion_adopter m) [] (\<lambda>ms. ms @ [m])) mods g)" if "hm_ok g" for g
    using that by (induction mods arbitrary: g) simp_all
  then show ?thesis by (simp add: group_by_adopter_def)
qed

lemma abstract_fold:
  "fold abstract_apply mods st a =
     fold apply_modification (filter (\<lambda>m. pm_assertion_adopter m = a) mods) (st a)"
  by (induction mods arbitrary: st) (auto simp: abstract_apply_def)

lemma matching_fold:
  "fold (\<lambda>t (all, hc, hst). (hs_extend all (recorder_selectors tr t), hc \<or> is_call_trigger t,
       hst \<or> is_storage_trigger t)) ts (all, hc, hst) = (all', hc', hst') \<Longrightarrow>
   set all' = set all \<union> (\<Union>t \<in> set ts. registered tr t) \<and>
   hc' = (hc \<or> (\<exists>t \<in> set ts. is_call_trigger t)) \<and> hst' = (hst \<or> (\<exists>t \<in> set ts. is_storage_trigger t))"
proof (induction ts arbitrary: all hc hst)
  case (Cons t ts)
  have "set (recorder_selectors tr t) = registered tr t"
    by (simp add: recorder_selectors_def registered_def split: option.splits)
  with Cons.IH [of "hs_extend all (recorder_selectors tr t)" "hc \<or> is_call_trigger t"
      "hst \<or> is_storage_trigger t"] Cons.prems show ?case by auto
qed simp

lemma set_recorder_selectors: "set (recorder_selectors tr t) = registered tr t"
  by (simp add: recorder_selectors_def registered_def split: option.splits)

lemma set_matching_selectors: "s \<in> set (matching_selectors ts tr) \<longleftrightarrow> selects tr (set ts) s"
proof -
  obtain all' hc' hst' where f: "fold (\<lambda>t (all, hc, hst). (hs_extend all (recorder_selectors tr t),
      hc \<or> is_call_trigger t, hst \<or> is_storage_trigger t)) ts ([], False, False) = (all', hc', hst')"
    by (rule prod_cases3)
  from matching_fold [OF f] show ?thesis
    by (auto simp: matching_selectors_def f Let_def selects_def set_recorder_selectors)
qed


context assertion_db
begin

lemma decode_content:
  "decode_states bc (content db (address_bytes a)) = Inr as \<longleftrightarrow>
     readable bc (content db) a \<and> stored bc (content db) a = as"
  by (auto simp: decode_states_def readable_def stored_def split: option.splits sum.splits)

lemma read_states_stored:
  "read_states ops bc db a = Inr as \<Longrightarrow> readable bc (content db) a \<and> stored bc (content db) a = as"
  unfolding read_states_def result_eqs using decode_content get_content by metis

lemma load_states_stored:
  "load_states ops bc db a = Inr as \<Longrightarrow> readable bc (content db) a \<and> stored bc (content db) a = as"
  unfolding load_states_def result_eqs using decode_content get_content by metis

lemma attempt_retry:
  assumes "cas_attempt ops bc (env n) adopter mods d = Inr d2"
  shows "lost_turns ops content env (address_bytes adopter) n d (Suc n) d2"
proof -
  from assms obtain serialized v r
    where get: "sled_get ops d (address_bytes adopter) = Inr serialized"
      and cas: "sled_compare_and_swap ops (env n d) (address_bytes adopter) serialized (Some v) = (r, d2)"
      and r: "\<nexists>u. r = Inr (Inr u)"
    by (auto simp: cas_attempt_def Let_def split: sum.splits prod.splits)
  note read = get_content [OF get]
  show ?thesis
  proof (cases r)
    case (Inl e)
    with cas show ?thesis by (blast intro: lost_turns.intros)
  next
    case (Inr x)
    with r obtain found where "r = Inr (Inl found)" by (cases x) auto
    with cas_conflict cas read show ?thesis by (blast intro: lost_turns.intros)
  qed
qed

text \<open>A loop that returned lost some turns and then ended.\<close>

lemma loop_end:
  assumes "apply_pending_modification ops bc env adopter mods n db = Some y"
  shows "\<exists>m d. lost_turns ops content env (address_bytes adopter) n db m d \<and>
    cas_attempt ops bc (env m) adopter mods d = Inl y"
proof -
  let ?P = "\<lambda>ops bc env adopter mods n db y. assertion_db ops bc content \<longrightarrow>
    (\<exists>m d. lost_turns ops content env (address_bytes adopter) n db m d \<and>
      cas_attempt ops bc (env m) adopter mods d = Inl y)"
  have "?P ops bc env adopter mods n db y"
  proof (rule apply_pending_modification.raw_induct [where P = ?P, OF _ assms], rule impI)
    fix loop ops env mods n db y
    fix bc :: "('v, 'b) bincode" and adopter
    assume IH: "\<And>ops bc env adopter mods n db y. loop ops bc env adopter mods n db = Some y \<Longrightarrow> ?P ops bc env adopter mods n db y"
      and turn: "(case cas_attempt ops bc (env n) adopter mods db of Inl final \<Rightarrow> Some final
        | Inr db2 \<Rightarrow> loop ops bc env adopter mods (Suc n) db2) = Some y"
      and db: "assertion_db ops bc content"
    show "\<exists>m d. lost_turns ops content env (address_bytes adopter) n db m d \<and>
      cas_attempt ops bc (env m) adopter mods d = Inl y"
    proof (cases "cas_attempt ops bc (env n) adopter mods db")
      case (Inl final)
      with turn show ?thesis by (auto intro: no_turn)
    next
      case (Inr db2)
      with turn IH db obtain m d where "lost_turns ops content env (address_bytes adopter) (Suc n) db2 m d"
        "cas_attempt ops bc (env m) adopter mods d = Inl y" by fastforce
      with assertion_db.attempt_retry [where env = env, OF db Inr] show ?thesis by (blast intro: lost_turns_trans)
    qed
  qed
  with assertion_db_axioms show ?thesis by blast
qed

lemma attempt_success:
  assumes "cas_attempt ops bc e adopter mods d = Inl (Inr u, db')"
  shows "content (e d) (address_bytes adopter) = content d (address_bytes adopter) \<and>
    readable bc (content (e d)) adopter \<and> readable bc (content db') adopter \<and>
    stored bc (content db') adopter = fold apply_modification mods (stored bc (content (e d)) adopter) \<and>
    (\<forall>k. k \<noteq> address_bytes adopter \<longrightarrow> content db' k = content (e d) k)"
proof -
  from assms obtain serialized as v u'
    where get: "sled_get ops d (address_bytes adopter) = Inr serialized"
      and dec: "decode_states bc serialized = (Inr as :: (('i, 'b) assertion_store_error, _) result)"
      and sv: "ser bc (fold apply_modification mods as) = Inr v"
      and cas: "sled_compare_and_swap ops (e d) (address_bytes adopter) serialized (Some v) = (Inr (Inr u'), db')"
    by (auto simp: cas_attempt_def Let_def split: sum.splits prod.splits)
  from cas_swapped [OF cas] have c: "content (e d) (address_bytes adopter) = serialized"
    "content db' = (content (e d))(address_bytes adopter := Some v)" by simp_all
  from dec [folded c(1)] have "readable bc (content (e d)) adopter \<and> stored bc (content (e d)) adopter = as"
    by (simp add: decode_content)
  then show ?thesis
    using codec [OF sv] get_content [OF get] by (auto simp: c readable_def stored_def)
qed

end

context assertion_db_available
begin

lemma get_total: "sled_get ops db k = Inr (content db k)"
  using get_available get_content by metis

lemma attempt_cases:
  assumes "readable bc (content d) adopter"
  obtains (swapped) db' where "cas_attempt ops bc e adopter mods d = Inl (Inr (), db')"
  | (conflict) d2 where "cas_attempt ops bc e adopter mods d = Inr d2" "content d2 = content (e d)"
      "content (e d) (address_bytes adopter) \<noteq> content d (address_bytes adopter)"
proof -
  let ?k = "address_bytes adopter"
  from assms have dec: "decode_states bc (content d ?k) =
      (Inr (stored bc (content d) adopter) :: (('i, 'b) assertion_store_error, _) result)"
    by (simp add: decode_content)
  obtain v where v: "ser bc (fold apply_modification mods (stored bc (content d) adopter)) = Inr v"
    using ser_available by blast
  obtain r d2 where cas: "sled_compare_and_swap ops (e d) ?k (content d ?k) (Some v) = (Inr r, d2)"
    using cas_available by blast
  show thesis
  proof (cases r)
    case (Inr u)
    with cas dec v show thesis
      by (intro swapped [of d2]) (simp add: cas_attempt_def get_total)
  next
    case (Inl cur)
    with cas dec v cas_conflict [of "e d" ?k "content d ?k" "Some v" cur d2] show thesis
      by (intro conflict [of d2]) (simp_all add: cas_attempt_def get_total)
  qed
qed

lemma loop_returns:
  assumes keep: "\<And>m d. readable bc (content d) adopter \<Longrightarrow> readable bc (content (env m d)) adopter"
    and quiet: "\<And>m d. N \<le> m \<Longrightarrow>
      content (env m d) (address_bytes adopter) = content d (address_bytes adopter)"
    and "readable bc (content db) adopter"
  shows "\<exists>db'. apply_pending_modification ops bc env adopter mods n db = Some (Inr (), db')"
  using assms(3)
proof (induction "N - n" arbitrary: n db)
  case 0
  from 0(2) show ?case
  proof (cases rule: attempt_cases [where e = "env n" and mods = mods])
    case (swapped db')
    then show ?thesis by (subst apply_pending_modification.simps) simp
  next
    case (conflict d2)
    with quiet [of n db] 0(1) show ?thesis by simp
  qed
next
  case (Suc j)
  from Suc(3) show ?case
  proof (cases rule: attempt_cases [where e = "env n" and mods = mods])
    case (swapped db')
    then show ?thesis by (subst apply_pending_modification.simps) simp
  next
    case (conflict d2)
    from Suc(2) have "j = N - Suc n" by simp
    moreover have "readable bc (content d2) adopter"
      using keep [OF Suc(3)] by (simp add: conflict(2))
    ultimately have "\<exists>db'. apply_pending_modification ops bc env adopter mods (Suc n) d2 = Some (Inr (), db')"
      by (rule Suc(1))
    with conflict(1) show ?thesis by (subst apply_pending_modification.simps) simp
  qed
qed

lemma loop_alone:
  assumes "readable bc (content db) adopter"
  obtains db' where "apply_pending_modification ops bc (\<lambda>_ d. d) adopter mods 0 db = Some (Inr (), db')"
    "readable bc (content db') adopter"
    "stored bc (content db') adopter = fold apply_modification mods (stored bc (content db) adopter)"
    "\<And>k. k \<noteq> address_bytes adopter \<Longrightarrow> content db' k = content db k"
proof -
  from assms show thesis
  proof (cases rule: attempt_cases [where e = "\<lambda>d. d" and mods = mods])
    case (swapped db')
    then have "apply_pending_modification ops bc (\<lambda>_ d. d) adopter mods 0 db = Some (Inr (), db')"
      by (subst apply_pending_modification.simps) simp
    with attempt_success [OF swapped] show thesis by (intro that [of db']) auto
  qed simp
qed

lemma groups_alone:
  assumes "distinct (map fst gs)" and "\<And>a. readable bc (content db) a"
  shows "\<exists>db'. apply_groups ops bc (\<lambda>_ _ d. d) gs db = Some (Inr (), db') \<and>
    (\<forall>a. readable bc (content db') a \<and> stored bc (content db') a =
       (case hm_get gs a of None \<Rightarrow> stored bc (content db) a
        | Some ms \<Rightarrow> fold apply_modification ms (stored bc (content db) a)))"
  using assms
proof (induction gs arbitrary: db)
  case (Cons g gs)
  obtain a ms where g: "g = (a, ms)" by (cases g)
  obtain db1 where 1: "apply_pending_modification ops bc (\<lambda>_ d. d) a ms 0 db = Some (Inr (), db1)"
    and r: "readable bc (content db1) a"
    and st: "stored bc (content db1) a = fold apply_modification ms (stored bc (content db) a)"
    and frame: "\<And>k. k \<noteq> address_bytes a \<Longrightarrow> content db1 k = content db k"
    using loop_alone [OF Cons.prems(2), of a ms] by metis
  have other: "stored bc (content db1) b = stored bc (content db) b \<and> readable bc (content db1) b"
    if "b \<noteq> a" for b
    using frame [of "address_bytes b"] that Cons.prems(2) [of b]
    by (simp add: stored_def readable_def address_bytes_inj)
  have "readable bc (content db1) b" for b using other r by (cases "b = a") auto
  with Cons.IH [of db1] Cons.prems(1) obtain db'
    where 2: "apply_groups ops bc (\<lambda>_ _ d. d) gs db1 = Some (Inr (), db')"
      and all: "\<And>b. readable bc (content db') b \<and> stored bc (content db') b =
        (case hm_get gs b of None \<Rightarrow> stored bc (content db1) b
         | Some ms \<Rightarrow> fold apply_modification ms (stored bc (content db1) b))" by auto
  have "hm_get gs a = None"
    using Cons.prems(1) by (simp add: g hm_get_def map_of_eq_None_iff)
  with all st other have "\<forall>b. readable bc (content db') b \<and> stored bc (content db') b =
      (case hm_get (g # gs) b of None \<Rightarrow> stored bc (content db) b
       | Some ms \<Rightarrow> fold apply_modification ms (stored bc (content db) b))"
    by (auto simp: g split: option.splits)
  with 1 2 show ?case by (simp add: g)
qed simp

lemma groups_alone_return: "\<exists>r. apply_groups ops bc (\<lambda>_ _ d. d) gs db = Some r"
proof (induction gs arbitrary: db)
  case (Cons g gs)
  have "\<exists>r. apply_pending_modification ops bc (\<lambda>_ d. d) (fst g) (snd g) 0 db = Some r"
  proof (cases "readable bc (content db) (fst g)")
    case True
    then show ?thesis using loop_alone by metis
  next
    case False
    then have "\<exists>e. decode_states bc (content db (address_bytes (fst g))) =
        (Inl e :: (('i, 'b) assertion_store_error, _) result)"
      using decode_content by (metis sum.exhaust)
    then show ?thesis by (subst apply_pending_modification.simps) (auto simp: cas_attempt_def get_total)
  qed
  with Cons.IH show ?case by (auto split: sum.splits)
qed simp

end

lemma hm_get_perm: "hm_ok m \<Longrightarrow> mset m' = mset m \<Longrightarrow> hm_get m' k = hm_get m k \<and> distinct (map fst m')"
proof -
  assume ok: "hm_ok m" and p: "mset m' = mset m"
  then have d: "distinct (map fst m')"
    unfolding hm_ok_def by (metis mset_eq_imp_distinct_iff mset_map)
  from p have "set m' = set m" by (rule mset_eq_setD)
  moreover have "hm_ok m'" using d by (simp add: hm_ok_def)
  ultimately have "hm_get m' k = Some v \<longleftrightarrow> hm_get m k = Some v" for v
    using hm_get_in [OF ok, of k v] hm_get_in [of m' k v] by simp
  then have "hm_get m' k = hm_get m k" by (metis not_Some_eq)
  with d show ?thesis by simp
qed

lemma is_active_iff:
  "is_active b a \<longleftrightarrow> active_at_block a \<le> b \<and>
     (case inactive_at_block a of
        None \<Rightarrow> b \<noteq> u64_max
      | Some i \<Rightarrow> if i < active_at_block a then b \<noteq> u64_max else b < i)"
proof -
  have "b < u64_max \<longleftrightarrow> b \<noteq> u64_max" by (simp add: u64_max_def word_order.not_eq_extremum)
  then show ?thesis by (simp add: is_active_def Let_def split: option.splits)
qed

lemma history_fold:
  assumes "assertion_of i as = Some st"
  shows "assertion_of i (fold apply_modification ms as) = Some (st
    \<lparr>active_at_block := fold (\<lambda>m b. case m of AddMod a' c' r' act' li' \<Rightarrow>
              if ac_id c' = i then act' else b | _ \<Rightarrow> b) ms (active_at_block st),
     inactive_at_block := fold (\<lambda>m b. case m of RemoveMod a' i' inact' li' \<Rightarrow>
              if i' = i then Some inact' else b | _ \<Rightarrow> b) ms (inactive_at_block st)\<rparr>)"
  using assms
proof (induction ms arbitrary: as st)
  case (Cons m ms)
  show ?case
  proof (cases m)
    case (AddMod a' c' r' act' li')
    have "assertion_of i (apply_modification m as) =
        Some (if i = ac_id c' then st\<lparr>active_at_block := act'\<rparr> else st)"
      using Cons.prems unfolding AddMod apply_add_assertion_of by auto
    from Cons.IH [OF this] show ?thesis by (auto simp: AddMod)
  next
    case (RemoveMod a' i' inact' li')
    have "assertion_of i (apply_modification m as) =
        Some (if i = i' then st\<lparr>inactive_at_block := Some inact'\<rparr> else st)"
      using Cons.prems unfolding RemoveMod apply_remove_assertion_of by auto
    from Cons.IH [OF this] show ?thesis by (auto simp: RemoveMod)
  qed
qed simp

lemma u64_max_less: "b < u64_max \<longleftrightarrow> b \<noteq> u64_max"
  by (simp add: u64_max_def word_order.not_eq_extremum)

lemma update_first_distinct:
  "distinct_ids as \<Longrightarrow> (case update_first (\<lambda>a. as_assertion_contract_id a = as_assertion_contract_id x) (\<lambda>_. x) as of
      Some ys \<Rightarrow> distinct_ids ys | None \<Rightarrow> distinct_ids (as @ [x]))"
proof (cases "update_first (\<lambda>a. as_assertion_contract_id a = as_assertion_contract_id x) (\<lambda>_. x) as")
  case None
  assume "distinct_ids as"
  moreover from None have "as_assertion_contract_id x \<notin> as_assertion_contract_id ` set as"
    by (auto simp: update_first_None)
  ultimately show ?thesis by (simp add: None distinct_ids_def)
next
  case (Some ys)
  assume "distinct_ids as"
  moreover have "map as_assertion_contract_id ys = map as_assertion_contract_id as"
    by (rule update_first_map [OF _ Some]) simp
  ultimately show ?thesis by (simp add: Some distinct_ids_def)
qed

lemma update_first_assertion_of:
  "assertion_of i (case update_first (\<lambda>a. as_assertion_contract_id a = as_assertion_contract_id x) (\<lambda>_. x) as of
      Some ys \<Rightarrow> ys | None \<Rightarrow> as @ [x]) =
    (if i = as_assertion_contract_id x then Some x else assertion_of i as)"
proof (cases "update_first (\<lambda>a. as_assertion_contract_id a = as_assertion_contract_id x) (\<lambda>_. x) as")
  case None
  then have "assertion_of (as_assertion_contract_id x) as = None"
    by (simp add: assertion_of_def find_None_iff update_first_None)
  with None show ?thesis by (auto simp: assertion_of_def find_append split: option.splits)
next
  case (Some ys)
  then have "find (\<lambda>a. as_assertion_contract_id a = as_assertion_contract_id x) as \<noteq> None"
    using find_None_update by (metis option.distinct(1))
  moreover have "find (\<lambda>a. as_assertion_contract_id a = as_assertion_contract_id x) ys =
      map_option (\<lambda>_. x) (find (\<lambda>a. as_assertion_contract_id a = as_assertion_contract_id x) as)"
    by (rule find_update_first_same [OF _ Some]) simp
  moreover have "find (\<lambda>a. as_assertion_contract_id a = i) ys = find (\<lambda>a. as_assertion_contract_id a = i) as"
    if "i \<noteq> as_assertion_contract_id x"
    by (rule find_update_first [OF _ Some]) (use that in auto)
  ultimately show ?thesis by (auto simp: assertion_of_def Some)
qed

lemma read_fold_total:
  assumes "\<And>a. \<exists>sts. read_states ops bc db a = Inr sts"
  shows "\<exists>res. result_fold (\<lambda>assertions (contract_address, ts).
      result_bind (read_adopter ops bc db contract_address ts block) (\<lambda>contract_assertions.
        Inr (assertions @ map (\<lambda>(c, ss). \<lparr>afe_assertion_contract = c, afe_selectors = ss,
               afe_adopter = contract_address\<rparr>) contract_assertions))) acc tm = Inr res"
proof (induction tm arbitrary: acc)
  case (Cons x tm)
  obtain b ts where x: "x = (b, ts)" by (cases x)
  obtain sts where "read_states ops bc db b = Inr sts" using assms by blast
  with Cons.IH show ?case by (simp add: x read_adopter_def)
qed simp

context assertion_db_available
begin

lemma read_states_total: "readable bc (content db) a \<Longrightarrow> read_states ops bc db a = Inr (stored bc (content db) a)"
  by (simp add: read_states_def get_total decode_content)

lemma read_total:
  assumes "\<And>a. readable bc (content db) a" and "unat block_num < 2 ^ 64"
  shows "\<exists>res. store_read ops bc db traces block_num = Inr res"
proof -
  have "\<exists>sts. read_states ops bc db a = Inr sts" for a using read_states_total [OF assms(1)] by blast
  from read_fold_total [OF this] assms(2) show ?thesis by (simp add: store_read_def try_into_u64_def)
qed

end

lemma read_selects:
  assumes "assertion_db ops bc content" and "store_read ops bc db traces block_num = Inr res"
  shows "(\<exists>x \<in> set res. afe_adopter x = a \<and> afe_assertion_contract x = c \<and> s \<in> set (afe_selectors x)) \<longleftrightarrow>
    (\<exists>st \<in> set (stored bc (content db) a). is_active (ucast block_num) st \<and>
       as_assertion_contract st = c \<and> selects (as_trigger_recorder st) (fired traces a) s)"
proof -
  let ?step = "\<lambda>assertions (contract_address, ts).
      result_bind (read_adopter ops bc db contract_address ts (ucast block_num)) (\<lambda>contract_assertions.
        Inr (assertions @ map (\<lambda>(c, ss). \<lparr>afe_assertion_contract = c, afe_selectors = ss,
               afe_adopter = contract_address\<rparr>) contract_assertions))"
  let ?hits = "\<lambda>res. \<exists>x \<in> set res. afe_adopter x = a \<and> afe_assertion_contract x = c \<and> s \<in> set (afe_selectors x)"
  let ?want = "\<lambda>ts. \<exists>st \<in> set (stored bc (content db) a). is_active (ucast block_num) st \<and>
       as_assertion_contract st = c \<and> selects (as_trigger_recorder st) (set ts) s"
  have fold_hits: "?hits out \<longleftrightarrow> ?hits acc \<or> (\<exists>ts. (a, ts) \<in> set tm \<and> ?want ts)"
    if "result_fold ?step acc tm = Inr out" for acc tm out
    using that
  proof (induction tm arbitrary: acc)
    case (Cons x tm)
    obtain b ts where x: "x = (b, ts)" by (cases x)
    from Cons.prems obtain sts where l: "read_states ops bc db b = Inr sts"
      and rest: "result_fold ?step (acc @ map (\<lambda>(c, ss). \<lparr>afe_assertion_contract = c, afe_selectors = ss,
          afe_adopter = b\<rparr>) (map (\<lambda>st. (as_assertion_contract st, matching_selectors ts (as_trigger_recorder st)))
            (filter (is_active (ucast block_num)) sts))) tm = Inr out"
      by (auto simp: x read_adopter_def result_eqs)
    from assertion_db.read_states_stored [OF assms(1) l] have sts: "sts = stored bc (content db) b" by simp
    have new: "?hits (map (\<lambda>(c, ss). \<lparr>afe_assertion_contract = c, afe_selectors = ss, afe_adopter = b\<rparr>)
        (map (\<lambda>st. (as_assertion_contract st, matching_selectors ts (as_trigger_recorder st)))
          (filter (is_active (ucast block_num)) sts))) \<longleftrightarrow> a = b \<and> ?want ts"
      by (auto simp: sts set_matching_selectors)
    show ?case
      unfolding Cons.IH [OF rest] set_append bex_Un new by (auto simp: x)
  qed simp
  from assms(2) have "result_fold ?step [] (triggers traces) = Inr res"
    by (auto simp: store_read_def result_eqs try_into_u64_def split: if_splits)
  from fold_hits [OF this] show ?thesis
    using hm_get_in [OF triggers_ok, of a _ traces]
    by (auto simp: fired_def selects_def split: option.splits)
qed

lemma batch_refines:
  assumes "assertion_db_available ops bc content" and "\<And>a. readable bc (content db) a"
    and "\<And>m. mset (iter m) = mset m"
  shows "\<exists>db'. apply_pending_modifications ops bc (\<lambda>_ _ d. d) iter mods db = Some (Inr (), db') \<and>
    stored bc (content db') = fold abstract_apply mods (stored bc (content db)) \<and>
    (\<forall>a. readable bc (content db') a)"
proof -
  let ?gs = "iter (group_by_adopter mods)"
  have gs: "hm_get ?gs a = hm_get (group_by_adopter mods) a" and "distinct (map fst ?gs)" for a
    using hm_get_perm [OF group_ok assms(3)] by simp_all
  from assertion_db_available.groups_alone [OF assms(1) this(2) assms(2)] obtain db'
    where run: "apply_groups ops bc (\<lambda>_ _ d. d) ?gs db = Some (Inr (), db')"
      and st: "\<And>a. stored bc (content db') a = (case hm_get ?gs a of
          None \<Rightarrow> stored bc (content db) a
        | Some ms \<Rightarrow> fold apply_modification ms (stored bc (content db) a))"
      and rd: "\<And>a. readable bc (content db') a" by blast
  have "stored bc (content db') a = fold abstract_apply mods (stored bc (content db)) a" for a
    using group_get [of mods "[]" a, folded group_by_adopter_def]
    by (simp add: st gs abstract_fold Let_def)
  with run rd show ?thesis unfolding apply_pending_modifications_def by blast
qed

section \<open>Properties\<close>

text \<open>C8. No update is lost: when the compare-and-swap loop returns success, it lost some turns, each
  of them to others who changed the adopter's entry (and then it left the tree as they left it) or to an
  error of the tree, and won the next one.  In that turn nobody changed the entry between the read and
  the swap, and the loop's effect is exactly the modifications applied, in order, to the adopter's
  list in the tree the others have just left, \<open>env m d\<close>, with every other key as it is there.\<close>

theorem apply_pending_modification_atomic:
  assumes "assertion_db ops bc content"
    and "apply_pending_modification ops bc env adopter mods n db = Some (Inr u, db')"
  shows "\<exists>m d. lost_turns ops content env (address_bytes adopter) n db m d \<and>
    content (env m d) (address_bytes adopter) = content d (address_bytes adopter) \<and>
    readable bc (content (env m d)) adopter \<and>
    stored bc (content db') adopter = fold apply_modification mods (stored bc (content (env m d)) adopter) \<and>
    (\<forall>k. k \<noteq> address_bytes adopter \<longrightarrow> content db' k = content (env m d) k)"
proof -
  from assertion_db.loop_end [OF assms]
  obtain m d where "lost_turns ops content env (address_bytes adopter) n db m d"
    and "cas_attempt ops bc (env m) adopter mods d = Inl (Inr u, db')" by blast
  with assertion_db.attempt_success [OF assms(1) this(2)] show ?thesis by blast
qed

text \<open>C9. The loop ends: with a working tree and a readable entry, if from some attempt on nobody
  else changes the adopter's entry between the read and the swap, the loop returns, and with
  success.\<close>

theorem apply_pending_modification_returns:
  assumes "assertion_db_available ops bc content" and "readable bc (content db) adopter"
    and "\<And>m d. readable bc (content d) adopter \<Longrightarrow> readable bc (content (env m d)) adopter"
    and "\<And>m d. N \<le> m \<Longrightarrow> content (env m d) (address_bytes adopter) = content d (address_bytes adopter)"
  shows "\<exists>db'. apply_pending_modification ops bc env adopter mods 0 db = Some (Inr (), db')"
  by (rule assertion_db_available.loop_returns [OF assms(1)]) (use assms in auto)

text \<open>C10. Refinement of the batch: grouping the modifications by adopter in a hash map and applying
  the groups in whatever order the map iterates leaves every adopter with exactly what applying
  the modifications one by one, in order, would leave.\<close>

theorem apply_pending_modifications_refines:
  assumes "assertion_db_available ops bc content" and "\<And>a. readable bc (content db) a"
    and "\<And>m. mset (iter m) = mset m"
  shows "\<exists>db'. apply_pending_modifications ops bc (\<lambda>_ _ d. d) iter mods db = Some (Inr (), db') \<and>
    stored bc (content db') = fold abstract_apply mods (stored bc (content db))"
  using batch_refines [OF assms] by blast

text \<open>C11. The life of an assertion: starting from a list without it, the first addition decides its
  contract and triggers, the last addition its activation block, the last removal after the first
  addition its deactivation block; removals before the first addition have no effect.\<close>

theorem modification_history:
  assumes "assertion_of (ac_id c) as = None"
    and "\<forall>m \<in> set before. pm_assertion_contract_id m = ac_id c \<longrightarrow> (\<exists>a i l. m = RemoveMod a (ac_id c) i l)"
  shows "assertion_of (ac_id c)
      (fold apply_modification (before @ AddMod a c r act li # after) as) =
    Some \<lparr>active_at_block = fold (\<lambda>m b. case m of AddMod a' c' r' act' li' \<Rightarrow>
              if ac_id c' = ac_id c then act' else b | _ \<Rightarrow> b) after act,
      inactive_at_block = fold (\<lambda>m b. case m of RemoveMod a' i' inact' li' \<Rightarrow>
              if i' = ac_id c then Some inact' else b | _ \<Rightarrow> b) after None,
      as_assertion_contract = c, as_trigger_recorder = r\<rparr>"
proof -
  have "assertion_of (ac_id c) (fold apply_modification before as) = None"
    using assms
  proof (induction before arbitrary: as)
    case (Cons m ms)
    have "assertion_of (ac_id c) (apply_modification m as) = None"
      using Cons.prems by (cases m) (auto simp: apply_add_assertion_of apply_remove_assertion_of simp del: apply_modification.simps)
    with Cons show ?case by simp
  qed simp
  then have "assertion_of (ac_id c) (apply_modification (AddMod a c r act li) (fold apply_modification before as)) =
      Some \<lparr>active_at_block = act, inactive_at_block = None, as_assertion_contract = c, as_trigger_recorder = r\<rparr>"
    by (simp add: apply_add_assertion_of del: apply_modification.simps)
  from history_fold [OF this, of "after"] show ?thesis by simp
qed

text \<open>C7. Reading is exact: when the read succeeds, the assertion functions it returns for
  execution are exactly the ones of an active assertion of an address that fired a trigger,
  registered for one of the fired triggers (the catch-all call and storage registrations included).\<close>

theorem store_read_exact:
  assumes "assertion_db ops bc content" and "store_read ops bc db traces block_num = Inr res"
  shows "(\<exists>x \<in> set res. afe_adopter x = a \<and> afe_assertion_contract x = c \<and> s \<in> set (afe_selectors x)) \<longleftrightarrow>
    (\<exists>st \<in> set (stored bc (content db) a). is_active (ucast block_num) st \<and>
       as_assertion_contract st = c \<and> selects (as_trigger_recorder st) (fired traces a) s)"
  using assms by (rule read_selects)

text \<open>With a working tree the read fails exactly when the block number does not fit in 64 bits,
  and then with that error; otherwise it returns.\<close>

lemma store_read_errors:
  assumes "assertion_db_available ops bc content" and "\<And>a. readable bc (content db) a"
  shows "if unat block_num < 2 ^ 64 then \<exists>res. store_read ops bc db traces block_num = Inr res
    else store_read ops bc db traces block_num = Inl BlockNumberExceedsU64"
  using assertion_db_available.read_total [OF assms] by (simp add: store_read_def try_into_u64_def)

text \<open>The activation window, over the history of one assertion: added for block \<open>act\<close> it is
  active from \<open>act\<close> on (never at the largest block number); removed for block \<open>i\<close> it is active from
  \<open>act\<close> up to but not including \<open>i\<close>; added again for a later block \<open>act2\<close> it is active from \<open>act2\<close> on.\<close>

lemma activation_window:
  assumes "act \<le> i" and "i < act2"
  shows "map (\<lambda>ms. list_ex (is_active b) (fold apply_modification ms []))
      [[AddMod a c r act l], [AddMod a c r act l, RemoveMod a (ac_id c) i l],
       [AddMod a c r act l, RemoveMod a (ac_id c) i l, AddMod a c r act2 l]] =
    [act \<le> b \<and> b \<noteq> u64_max, act \<le> b \<and> b < i, act2 \<le> b \<and> b \<noteq> u64_max]"
  using assms by (auto simp: is_active_iff as_assertion_contract_id_def)

text \<open>An assertion that is removed for a block and added again for the same block is active at
  no block at all, although its last modification is an addition: the end bound is ignored only
  when it is strictly below the activation block.\<close>

lemma readded_at_removal_block_never_active:
  "fold apply_modification [AddMod a c r act l, RemoveMod a (ac_id c) i l, AddMod a c r i l'] [] =
     [\<lparr>active_at_block = i, inactive_at_block = Some i, as_assertion_contract = c, as_trigger_recorder = r\<rparr>] \<and>
   \<not> is_active b \<lparr>active_at_block = i, inactive_at_block = Some i, as_assertion_contract = c,
        as_trigger_recorder = r\<rparr>"
  by (auto simp: is_active_iff as_assertion_contract_id_def)

text \<open>Inserting an assertion returns the previous state under the same contract id, makes the
  new state the one found under that id, keeps every other assertion and every other adopter, and
  keeps the ids of the adopter's assertions distinct.\<close>

lemma store_insert_spec:
  assumes "assertion_db ops bc content"
    and "store_insert ops bc db adopter x = (Inr previous, db')"
    and "distinct_ids (stored bc (content db) adopter)"
  shows "previous = assertion_of (as_assertion_contract_id x) (stored bc (content db) adopter) \<and>
    (\<forall>i. assertion_of i (stored bc (content db') adopter) =
       (if i = as_assertion_contract_id x then Some x
        else assertion_of i (stored bc (content db) adopter))) \<and>
    (\<forall>b. b \<noteq> adopter \<longrightarrow> stored bc (content db') b = stored bc (content db) b) \<and>
    distinct_ids (stored bc (content db') adopter)"
proof -
  let ?as = "stored bc (content db) adopter"
  let ?upd = "update_first (\<lambda>a. as_assertion_contract_id a = as_assertion_contract_id x) (\<lambda>_. x) ?as"
  let ?new = "case ?upd of Some as \<Rightarrow> as | None \<Rightarrow> ?as @ [x]"
  from assms(2) obtain as where l: "load_states ops bc db adopter = Inr as"
    by (auto simp: store_insert_def split: sum.splits)
  with assertion_db.load_states_stored [OF assms(1) l] assms(2) obtain v old
    where s: "ser bc ?new = Inr v"
      and i: "sled_insert ops db (address_bytes adopter) v = (Inr old, db')"
      and p: "previous = assertion_of (as_assertion_contract_id x) ?as"
    by (auto simp: store_insert_def assertion_of_def Let_def split: sum.splits prod.splits)
  from assertion_db.insert_content [OF assms(1) i]
  have c: "content db' = (content db)(address_bytes adopter \<mapsto> v)" .
  then have new: "stored bc (content db') adopter = ?new"
    using assertion_db.codec [OF assms(1) s] by (simp add: stored_def)
  have "stored bc (content db') b = stored bc (content db) b" if "b \<noteq> adopter" for b
    using that by (simp add: c stored_def address_bytes_inj)
  moreover have "distinct_ids ?new"
    using update_first_distinct [OF assms(3), of x] by (simp split: option.splits)
  ultimately show ?thesis
    unfolding new update_first_assertion_of p by simp
qed

text \<open>The first turn is lost to a writer that creates the entry, the second succeeds on it.\<close>

theorem apply_pending_modification_atomic_witness:
  "\<exists>db' m (d :: bytes \<Rightarrow> assertion_state list option). apply_pending_modification map_sled plain_bincode
      (\<lambda>n d. if n = 0 then d(address_bytes 7 \<mapsto> []) else d) 7
      [RemoveMod 7 1 5 0] 0 Map.empty = Some (Inr (), db') \<and>
    lost_turns map_sled (\<lambda>m. m) (\<lambda>n d. if n = 0 then d(address_bytes 7 \<mapsto> []) else d) (address_bytes 7) 0 Map.empty m d \<and>
    m \<noteq> 0"
proof -
  define env :: "nat \<Rightarrow> (bytes \<Rightarrow> assertion_state list option) \<Rightarrow> bytes \<Rightarrow> assertion_state list option"
    where "env = (\<lambda>n d. if n = 0 then d(address_bytes 7 \<mapsto> []) else d)"
  obtain db' where db': "apply_pending_modification map_sled plain_bincode env 7 [RemoveMod 7 1 5 0] 0 Map.empty =
      Some (Inr (), db')"
    using map_db.loop_returns [where N = 1 and env = env
        and adopter = 7 and db = Map.empty and n = 0 and mods = "[RemoveMod 7 1 5 0]"]
    by (auto simp: env_def)
  from apply_pending_modification_atomic [OF map_db.assertion_db_axioms db'] obtain m d where
    m: "lost_turns map_sled (\<lambda>m. m) env (address_bytes 7) 0 Map.empty m d"
    "env m d (address_bytes 7) = d (address_bytes 7)" by blast
  have "m \<noteq> 0"
  proof
    assume "m = 0"
    with m(1) have "d = Map.empty" by (simp add: lost_no_turn)
    with m(2) \<open>m = 0\<close> show False by (simp add: env_def)
  qed
  with db' m(1) show ?thesis by (fold env_def) blast
qed

theorem apply_pending_modification_returns_witness:
  "\<exists>db'. apply_pending_modification map_sled plain_bincode
      (\<lambda>n d. if n < 3 then d(address_bytes 7 \<mapsto> []) else d) 7 [RemoveMod 7 1 5 0] 0 Map.empty = Some (Inr (), db')"
  by (rule apply_pending_modification_returns [OF map_db.assertion_db_available_axioms, where N = 3])
    auto

theorem apply_pending_modifications_refines_witness:
  "\<exists>db'. apply_pending_modifications map_sled plain_bincode (\<lambda>_ _ d. d) rev
      [RemoveMod 7 1 5 0, RemoveMod 8 1 5 1] Map.empty = Some (Inr (), db') \<and>
    stored plain_bincode db' = fold abstract_apply [RemoveMod 7 1 5 0, RemoveMod 8 1 5 1]
      (stored plain_bincode Map.empty)"
  by (rule apply_pending_modifications_refines [OF map_db.assertion_db_available_axioms])
    simp_all

theorem modification_history_witness:
  "assertion_of 1 (fold apply_modification
      ([RemoveMod 7 1 4 0] @ AddMod 7 \<lparr>ac_id = 1, ac_deployed_code = [], ac_code_hash = 0, ac_storage = [],
          ac_account_status = account_status_touched\<rparr> \<lparr>recorded_triggers = []\<rparr> 3 0 # [RemoveMod 7 1 10 0]) []) =
    Some \<lparr>active_at_block = 3, inactive_at_block = Some 10,
      as_assertion_contract = \<lparr>ac_id = 1, ac_deployed_code = [], ac_code_hash = 0, ac_storage = [],
          ac_account_status = account_status_touched\<rparr>, as_trigger_recorder = \<lparr>recorded_triggers = []\<rparr>\<rparr>"
  using modification_history [of "\<lparr>ac_id = 1, ac_deployed_code = [], ac_code_hash = 0, ac_storage = [],
      ac_account_status = account_status_touched\<rparr>" "[]" "[RemoveMod 7 1 4 0]" 7 "\<lparr>recorded_triggers = []\<rparr>" 3 0
      "[RemoveMod 7 1 10 0]"]
  by (simp add: assertion_of_def del: apply_modification.simps)

theorem store_read_exact_witness:
  "\<exists>res. store_read map_sled plain_bincode (\<lambda>k. Some [\<lparr>active_at_block = 3, inactive_at_block = None,
      as_assertion_contract = \<lparr>ac_id = 1, ac_deployed_code = [], ac_code_hash = 0, ac_storage = [],
          ac_account_status = account_status_touched\<rparr>,
      as_trigger_recorder = \<lparr>recorded_triggers = [(AllCalls, [9])]\<rparr>\<rparr>])
      (record_call call_tracer_new \<lparr>ci_input = [], ci_return_memory_offset = (0, 0), ci_gas_limit = 9,
         ci_bytecode_address = 7, ci_target_address = 7, ci_caller = 1, ci_value = TransferValue 0,
         ci_is_static = False\<rparr>) 5 = Inr res \<and>
    (\<exists>x \<in> set res. afe_adopter x = 7 \<and> afe_assertion_contract x = \<lparr>ac_id = 1, ac_deployed_code = [],
       ac_code_hash = 0, ac_storage = [], ac_account_status = account_status_touched\<rparr> \<and>
       9 \<in> set (afe_selectors x))"
proof -
  let ?db = "\<lambda>k :: bytes. Some [\<lparr>active_at_block = 3, inactive_at_block = None,
      as_assertion_contract = \<lparr>ac_id = 1, ac_deployed_code = [], ac_code_hash = 0, ac_storage = [],
          ac_account_status = account_status_touched\<rparr>,
      as_trigger_recorder = \<lparr>recorded_triggers = [(AllCalls, [9])]\<rparr>\<rparr>]"
  let ?ct = "record_call call_tracer_new \<lparr>ci_input = [], ci_return_memory_offset = (0, 0), ci_gas_limit = 9,
         ci_bytecode_address = 7, ci_target_address = 7, ci_caller = 1, ci_value = TransferValue 0,
         ci_is_static = False\<rparr>"
  obtain res where res: "store_read map_sled plain_bincode ?db ?ct 5 = Inr res"
    using map_db.read_total [of ?db 5 ?ct] by auto
  have "Call 0 \<in> fired ?ct 7"
    by (simp add: fired_eq record_call_def call_tracer_new_def input_selector_def)
  then have "selects \<lparr>recorded_triggers = [(AllCalls, [9])]\<rparr> (fired ?ct 7) 9"
    by (auto simp: selects_def registered_def is_call_trigger_def intro!: bexI [of _ "Call 0"])
  then show ?thesis
    using res store_read_exact [OF map_db.assertion_db_axioms res, of 7]
    by (auto simp: stored_def plain_bincode_def is_active_iff u64_max_def)
qed

end
