(* ===== verification/Executor.thy ===== *)
theory Executor
  imports BuildEvm AssertionStore
begin

text \<open>
  \<^verbatim>\<open>src/executor/mod.rs\<close> and \<^verbatim>\<open>src/error.rs\<close>: validating a transaction.  The transaction runs against
  the caller's database with the call tracer, its changes go to a copy of the fork, the store
  gives the assertions its triggers select, and each selected function of each assertion contract
  runs in an EVM over the two forks.  How revm runs an EVM, and what its \<^verbatim>\<open>Default\<close> values are, is the
  parameter \<open>revm\<close>.  The two parallel iterations are explicit: \<open>schedule\<close> is the order in which the
  functions of a contract reach the shared counters, \<open>pick\<close> is the error a parallel collect reports
  when several contracts fail.
  The lemmas show exactly when a transaction is committed and that every other outcome leaves the
  fork as it was, what the counters add up to, and what an assertion can see.
\<close>

section \<open>Data\<close>

datatype 'e evm_error =
    EvmTransaction string
  | EvmHeader string
  | EvmDatabase 'e
  | EvmPrecompile string
  | EvmCustom string

datatype ('d, 'i, 'b) executor_error =
    TxError "'d evm_error"
  | AssertionReadError "('i, 'b) assertion_store_error"

record ('xd, 'xe, 'e, 'x, 'h) revm =
  rv_instructions :: "('x, 'h) instructions"
  rv_transact_tx :: "(call_tracer, 'xd, 'xd, 'x, 'h) evm \<Rightarrow>
    ('xe evm_error, result_and_state) result \<times> call_tracer \<times> 'xd"
  rv_transact_ph :: "(phevm_inspector, 'e multi_fork_db, 'e evm_ctx, 'x, 'h) evm \<Rightarrow>
    (string, result_and_state) result"
  rv_display_error :: "'xe evm_error \<Rightarrow> string"
  rv_tx_env_default :: tx_env
  rv_account_info_default :: account_info
  rv_journaled_state_new :: "spec_id \<Rightarrow> journaled_state"
  rv_abi :: phevm_abi
  rv_optimism :: bool

record ('d, 'i, 'b) schedule =
  sched_fns :: "fn_selector list \<Rightarrow> fn_selector list"
  sched_pick :: "('d, 'i, 'b) executor_error list \<Rightarrow> ('d, 'i, 'b) executor_error"

section \<open>Running one transaction\<close>

definition convert_evm_error :: "('xe evm_error \<Rightarrow> string) \<Rightarrow> 'xe evm_error \<Rightarrow> 'd evm_error" where
  "convert_evm_error display e = (case e of
       EvmTransaction t \<Rightarrow> EvmTransaction t
     | EvmHeader h \<Rightarrow> EvmHeader h
     | EvmPrecompile p \<Rightarrow> EvmPrecompile p
     | EvmCustom c \<Rightarrow> EvmCustom c
     | _ \<Rightarrow> EvmCustom (''Error: '' @ display e))"

definition execute_forked_tx_ext_db :: "('xd, 'xe, 'e, 'x, 'h) revm \<Rightarrow> executor_config \<Rightarrow> block_env \<Rightarrow>
    tx_env \<Rightarrow> 'e fork_db \<Rightarrow> 'xd \<Rightarrow>
    (('d, 'i, 'b) executor_error, call_tracer \<times> result_and_state) result \<times> 'e fork_db \<times> 'xd" where
  "execute_forked_tx_ext_db rv cfg block tx fork_db external_db =
     (let ev = new_tx_fork_evm (rv_optimism rv) (rv_instructions rv) tx block (cfg_chain_id cfg)
                 (cfg_spec_id cfg) external_db call_tracer_new;
          (r, tracer, external_db') = rv_transact_tx rv ev
      in case r of
           Inl e \<Rightarrow> (Inl (TxError (convert_evm_error (rv_display_error rv) e)), fork_db, external_db')
         | Inr ras \<Rightarrow> (Inr (tracer, ras), fork_commit fork_db (ras_state ras), external_db'))"

section \<open>Running assertions\<close>

definition insert_assertion_contract :: "('xd, 'xe, 'e, 'x, 'h) revm \<Rightarrow> assertion_contract \<Rightarrow>
    'e multi_fork_db \<Rightarrow> 'e multi_fork_db" where
  "insert_assertion_contract rv ac mfd =
     (let account_info = \<lparr>info_balance = - 1, info_nonce = 1, info_code_hash = ac_code_hash ac,
                          info_code = Some (ac_deployed_code ac)\<rparr>;
          account = \<lparr>acc_info = account_info, acc_storage = ac_storage ac,
                     acc_status = ac_account_status ac\<rparr>;
          caller_account = \<lparr>acc_info = (rv_account_info_default rv)\<lparr>info_nonce := 42, info_balance := - 1\<rparr>,
                            acc_storage = [], acc_status = account_status_touched\<rparr>;
          state = hm_insert CALLER caller_account (hm_insert ASSERTION_CONTRACT account []);
          mfd1 = mfd_commit mfd state
      in mfd1\<lparr>mfd_active_db := fork_dont_read CALLER (fork_dont_read ASSERTION_CONTRACT (mfd_active_db mfd1))\<rparr>)"

definition selector_bytes :: "fn_selector \<Rightarrow> bytes" where
  "selector_bytes s = map of_nat (be_digits 4 (unat s))"

definition assertion_tx_env :: "('xd, 'xe, 'e, 'x, 'h) revm \<Rightarrow> executor_config \<Rightarrow> fn_selector \<Rightarrow>
    block_env \<Rightarrow> tx_env" where
  "assertion_tx_env rv cfg selector block = (rv_tx_env_default rv)
     \<lparr>tx_transact_to := TxCall ASSERTION_CONTRACT,
      tx_caller := CALLER,
      tx_data := selector_bytes selector,
      tx_gas_limit := cfg_assertion_gas_limit cfg,
      tx_gas_price := be_basefee block,
      tx_optimism := (if rv_optimism rv then create_optimism_fields else tx_optimism (rv_tx_env_default rv))\<rparr>"

definition execute_assertion_fn :: "('xd, 'xe, 'e, 'x, 'h) revm \<Rightarrow> executor_config \<Rightarrow>
    assertion_contract \<Rightarrow> block_env \<Rightarrow> 'e multi_fork_db \<Rightarrow> phevm_context \<Rightarrow> fn_selector \<Rightarrow> u64 \<times> u64 \<Rightarrow>
    (('d, 'i, 'b) executor_error, assertion_function_result) result \<times> (u64 \<times> u64)" where
  "execute_assertion_fn rv cfg ac block mfd pc selector counters =
     (let (insp, mfd') = phevm_inspector_new (rv_journaled_state_new rv) (rv_account_info_default rv)
                           (cfg_spec_id cfg) mfd pc;
          ev = new_phevm (rv_optimism rv) (rv_instructions rv) (rv_abi rv)
                 (assertion_tx_env rv cfg selector block) block (cfg_chain_id cfg) (cfg_spec_id cfg) mfd' insp
      in case rv_transact_ph rv ev of
           Inl debug \<Rightarrow> (Inl (TxError (EvmCustom debug)), counters)
         | Inr ras \<Rightarrow>
             let result = ras_result ras; (assertion_gas, assertions_ran) = counters
             in (Inr \<lparr>afr_id = \<lparr>fn_id_selector = selector, fn_id_contract_id = ac_id ac\<rparr>,
                      afr_result = AssertionExecutionResult result\<rparr>,
                 (assertion_gas + er_gas_used result, assertions_ran + 1)))"

definition run_assertion_contract :: "('xd, 'xe, 'e, 'x, 'h) revm \<Rightarrow> executor_config \<Rightarrow>
    ('d, 'i, 'b) schedule \<Rightarrow> assertion_contract \<Rightarrow> fn_selector list \<Rightarrow> block_env \<Rightarrow> 'e multi_fork_db \<Rightarrow>
    phevm_context \<Rightarrow> (('d, 'i, 'b) executor_error, assertion_contract_execution) result" where
  "run_assertion_contract rv cfg sched ac selectors block mfd pc =
     (let mfd' = insert_assertion_contract rv ac mfd;
          run = (\<lambda>s c. execute_assertion_fn rv cfg ac block mfd' pc s c);
          results_vec = map (\<lambda>s. fst (run s (0, 0))) selectors;
          (assertion_gas, assertions_ran) = fold (\<lambda>s c. snd (run s c)) (sched_fns sched selectors) (0, 0)
      in result_bind (result_list results_vec) (\<lambda>valid_results.
           Inr \<lparr>assertion_fns_results = valid_results, total_assertion_gas = assertion_gas,
                total_assertion_funcs_ran = assertions_ran\<rparr>))"

fun result_errors :: "('e, 'a) result list \<Rightarrow> 'e list" where
  "result_errors [] = []"
| "result_errors (Inl e # rs) = e # result_errors rs"
| "result_errors (Inr _ # rs) = result_errors rs"

definition par_collect :: "('e list \<Rightarrow> 'e) \<Rightarrow> ('e, 'a) result list \<Rightarrow> ('e, 'a list) result" where
  "par_collect pick rs = (case result_errors rs of
       [] \<Rightarrow> result_list rs
     | errs \<Rightarrow> Inl (pick errs))"

definition execute_assertions :: "('xd, 'xe, 'e, 'x, 'h) revm \<Rightarrow> ('s, 'v, 'i) sled_ops \<Rightarrow>
    ('v, 'b) bincode \<Rightarrow> ('db, 's) assertion_executor \<Rightarrow> ('d, 'i, 'b) schedule \<Rightarrow> block_env \<Rightarrow>
    'e multi_fork_db \<Rightarrow> logs_and_traces \<Rightarrow>
    (('d, 'i, 'b) executor_error, assertion_contract_execution list) result" where
  "execute_assertions rv ops bc ex sched block mfd lt =
     result_bind (map_err AssertionReadError (store_read ops bc (ex_store ex) (call_traces lt) (be_number block)))
       (\<lambda>assertions.
          if assertions = [] then Inr []
          else par_collect (sched_pick sched) (map (\<lambda>x.
                 run_assertion_contract rv (ex_config ex) sched (afe_assertion_contract x) (afe_selectors x)
                   block mfd (phevm_context_new lt (afe_adopter x))) assertions))"

section \<open>Validating a transaction\<close>

definition invalid_assertions :: "assertion_contract_execution list \<Rightarrow> assertion_fn_id list" where
  "invalid_assertions results = concat (map (\<lambda>a. map afr_id (assertion_fns_results a))
     (filter (\<lambda>a. \<not> list_all afr_is_success (assertion_fns_results a)) results))"

definition validate_transaction_ext_db :: "('xd, 'xe, 'e, 'x, 'h) revm \<Rightarrow> ('s, 'v, 'i) sled_ops \<Rightarrow>
    ('v, 'b) bincode \<Rightarrow> ('db, 's) assertion_executor \<Rightarrow> ('d, 'i, 'b) schedule \<Rightarrow> block_env \<Rightarrow> tx_env \<Rightarrow>
    'e fork_db \<Rightarrow> 'xd \<Rightarrow> (('d, 'i, 'b) executor_error, tx_validation_result) result \<times> 'e fork_db \<times> 'xd" where
  "validate_transaction_ext_db rv ops bc ex sched block tx fork_db external_db =
     (let pre_tx_db = fork_db;
          (r, post_tx_db, external_db') =
            execute_forked_tx_ext_db rv (ex_config ex) block tx fork_db external_db
      in case r of
           Inl e \<Rightarrow> (Inl e, fork_db, external_db')
         | Inr (tx_traces, ras) \<Rightarrow>
             if \<not> er_is_success (ras_result ras)
             then (Inr (tx_validation_result_new True ras []), fork_db, external_db')
             else
               let mfd = multi_fork_new (fork_ref pre_tx_db) (fork_ref post_tx_db);
                   lt = \<lparr>tx_logs = er_logs (ras_result ras), call_traces = tx_traces\<rparr>
               in case execute_assertions rv ops bc ex sched block mfd lt of
                    Inl e \<Rightarrow> (Inl e, fork_db, external_db')
                  | Inr results \<Rightarrow>
                      if results = [] then
                        (Inr (tx_validation_result_new True ras []), fork_commit fork_db (ras_state ras), external_db')
                      else
                        let valid = (invalid_assertions results = [])
                        in (Inr (tx_validation_result_new valid ras results),
                            if valid then fork_commit fork_db (ras_state ras) else fork_db, external_db'))"

section \<open>What validation decides\<close>

text \<open>One assertion function holds for a transaction when its run over the two forks succeeds.\<close>

definition assertion_holds :: "('xd, 'xe, 'e, 'x, 'h) revm \<Rightarrow> executor_config \<Rightarrow> block_env \<Rightarrow>
    'e db_ref \<Rightarrow> 'e db_ref \<Rightarrow> logs_and_traces \<Rightarrow> address \<Rightarrow> assertion_contract \<Rightarrow> fn_selector \<Rightarrow> bool" where
  "assertion_holds rv cfg block pre post lt adopter ac s =
     (case fst (execute_assertion_fn rv cfg ac block (insert_assertion_contract rv ac (multi_fork_new pre post))
                  (phevm_context_new lt adopter) s (0, 0)) :: ((unit, unit, unit) executor_error, _) result of
        Inl _ \<Rightarrow> False
      | Inr afr \<Rightarrow> afr_is_success afr)"

definition assertion_layer :: "('xd, 'xe, 'e, 'x, 'h) revm \<Rightarrow> executor_config \<Rightarrow> 'e db_ref \<Rightarrow> 'e db_ref \<Rightarrow>
    assertion_contract \<Rightarrow> phevm_context \<Rightarrow> 'e multi_fork_db" where
  "assertion_layer rv cfg pre post ac pc = snd (phevm_inspector_new (rv_journaled_state_new rv)
     (rv_account_info_default rv) (cfg_spec_id cfg)
     (insert_assertion_contract rv ac (multi_fork_new pre post)) pc)"

text \<open>A concrete EVM: every transaction succeeds after one call to address 7, every assertion
  function reverts.\<close>

definition sample_tx_env :: tx_env where
  "sample_tx_env = \<lparr>tx_caller = 0, tx_gas_limit = 0, tx_gas_price = 0, tx_transact_to = TxCreate, tx_value = 0,
     tx_data = [], tx_nonce = None, tx_chain_id = None, tx_access_list = [], tx_gas_priority_fee = None,
     tx_blob_hashes = [], tx_max_fee_per_blob_gas = None, tx_authorization_list = None, tx_optimism = None\<rparr>"

definition sample_block :: block_env where
  "sample_block = \<lparr>be_number = 5, be_basefee = 0, be_coinbase = 0, be_timestamp = 0, be_gas_limit = 0\<rparr>"

definition sample_revm :: "(unit, unit, unit, unit, nat) revm" where
  "sample_revm = \<lparr>rv_instructions = sample_instructions,
     rv_transact_tx = \<lambda>ev. (Inr \<lparr>ras_result = EvmSuccess 21000 [] [], ras_state = []\<rparr>,
        record_call (evm_external ev) (sample_call 7 []), evm_db ev),
     rv_transact_ph = \<lambda>ev. Inr \<lparr>ras_result = EvmRevert 50 [], ras_state = []\<rparr>,
     rv_display_error = \<lambda>_. [], rv_tx_env_default = sample_tx_env,
     rv_account_info_default = \<lparr>info_balance = 0, info_nonce = 0, info_code_hash = 0, info_code = None\<rparr>,
     rv_journaled_state_new = \<lambda>_. sample_js, rv_abi = sample_phevm_abi, rv_optimism = False\<rparr>"

definition sample_schedule :: "(unit, unit, unit) schedule" where
  "sample_schedule = \<lparr>sched_fns = rev, sched_pick = hd\<rparr>"

definition sample_contract :: assertion_contract where
  "sample_contract = \<lparr>ac_id = 1, ac_deployed_code = [0], ac_code_hash = 0,
     ac_storage = [(0, \<lparr>original_value = 0, present_value = 3, is_cold = False\<rparr>)],
     ac_account_status = account_status_touched\<rparr>"

definition sample_executor :: "(unit, bytes \<Rightarrow> assertion_state list option) assertion_executor" where
  "sample_executor = config_build (executor_config_default 17) ()
     (\<lambda>k. Some [\<lparr>active_at_block = 3, inactive_at_block = None, as_assertion_contract = sample_contract,
        as_trigger_recorder = \<lparr>recorded_triggers = [(AllCalls, [9])]\<rparr>\<rparr>])"

section \<open>Lemmas\<close>

lemma invalid_assertions_empty:
  "invalid_assertions rs = [] \<longleftrightarrow> (\<forall>a \<in> set rs. \<forall>r \<in> set (assertion_fns_results a). afr_is_success r)"
  by (auto simp: invalid_assertions_def list_all_iff)

lemma result_errors_Nil: "result_errors rs = [] \<longleftrightarrow> (\<exists>as. rs = map Inr as)"
proof (induction rs rule: result_errors.induct)
  case (3 a rs)
  then show ?case by (auto simp: Cons_eq_map_conv)
qed auto

lemma par_collect_Inr: "par_collect pick rs = Inr as \<longleftrightarrow> rs = map Inr as"
proof (cases "result_errors rs")
  case Nil
  then show ?thesis by (simp add: par_collect_def result_list_Inr)
next
  case (Cons e es)
  then have "\<nexists>as. rs = map Inr as" using result_errors_Nil [of rs] by simp
  with Cons show ?thesis by (auto simp: par_collect_def)
qed

text \<open>The result of a function does not depend on the counters, nor on the type of errors around it.\<close>

lemma assertion_holds_result:
  "fst (execute_assertion_fn rv cfg ac block (insert_assertion_contract rv ac (multi_fork_new pre post))
      (phevm_context_new lt adopter) s c) = Inr afr \<Longrightarrow>
   assertion_holds rv cfg block pre post lt adopter ac s = afr_is_success afr"
  by (auto simp: assertion_holds_def execute_assertion_fn_def case_prod_unfold Let_def split: sum.splits)

lemma run_assertion_contract_results:
  fixes sched :: "('d, 'i, 'b) schedule"
  assumes "run_assertion_contract rv cfg sched ac selectors block mfd pc = Inr ex"
  shows "map (\<lambda>s. fst (execute_assertion_fn rv cfg ac block (insert_assertion_contract rv ac mfd) pc s (0, 0)) ::
      (('d, 'i, 'b) executor_error, assertion_function_result) result) selectors = map Inr (assertion_fns_results ex)"
  using assms
  by (auto simp: run_assertion_contract_def Let_def case_prod_unfold result_eqs result_list_Inr)

lemma run_assertion_contract_pairs:
  fixes sched :: "('d, 'i, 'b) schedule"
  assumes "run_assertion_contract rv cfg sched ac selectors block mfd pc = Inr ex"
  shows "list_all2 (\<lambda>s r. (fst (execute_assertion_fn rv cfg ac block (insert_assertion_contract rv ac mfd) pc s (0, 0)) ::
      (('d, 'i, 'b) executor_error, assertion_function_result) result) = Inr r) selectors (assertion_fns_results ex)"
  using run_assertion_contract_results [OF assms]
  by (auto simp: list_all2_conv_all_nth list_eq_iff_nth_eq)

lemma run_assertion_contract_holds:
  assumes "run_assertion_contract rv cfg sched ac selectors block (multi_fork_new pre post)
      (phevm_context_new lt adopter) = Inr ex"
  shows "(\<forall>r \<in> set (assertion_fns_results ex). afr_is_success r) \<longleftrightarrow>
    (\<forall>s \<in> set selectors. assertion_holds rv cfg block pre post lt adopter ac s)"
  using run_assertion_contract_pairs [OF assms]
  by (induction rule: list_all2_induct) (simp_all add: assertion_holds_result)

text \<open>The counters.\<close>

lemma execute_assertion_fn_counters:
  "fst (execute_assertion_fn rv cfg ac block mfd pc s c0) =
     (Inr afr :: (('d, 'i, 'b) executor_error, assertion_function_result) result) \<Longrightarrow>
   snd (execute_assertion_fn rv cfg ac block mfd pc s (g, n) ::
     (('d, 'i, 'b) executor_error, assertion_function_result) result \<times> u64 \<times> u64) = (g + er_gas_used (as_result afr), n + 1) \<and>
   fn_id_selector (afr_id afr) = s \<and> fn_id_contract_id (afr_id afr) = ac_id ac"
  by (auto simp: execute_assertion_fn_def case_prod_unfold Let_def as_result_def split: sum.splits)

lemma counters_fold:
  assumes "\<And>s g n. s \<in> set ss \<Longrightarrow> step s (g, n) = (g + gas s, n + (1 :: u64))"
  shows "fold step ss (g, n) = (g + (\<Sum>s \<leftarrow> ss. gas s :: u64), n + of_nat (length ss))"
  using assms
proof (induction ss arbitrary: g n)
  case (Cons s ss)
  then show ?case by (simp add: algebra_simps)
qed simp

lemma sum_list_perm:
  fixes f :: "'a \<Rightarrow> u64"
  assumes "mset xs = mset ys"
  shows "(\<Sum>x \<leftarrow> xs. f x) = (\<Sum>y \<leftarrow> ys. f y)"
  using assms by (metis mset_map sum_mset_sum_list)

lemma address_distinct [simp]:
  "ASSERTION_CONTRACT \<noteq> CALLER" "CALLER \<noteq> ASSERTION_CONTRACT" "PRECOMPILE_ADDRESS \<noteq> CALLER"
  "CALLER \<noteq> PRECOMPILE_ADDRESS" "PRECOMPILE_ADDRESS \<noteq> ASSERTION_CONTRACT"
  "ASSERTION_CONTRACT \<noteq> PRECOMPILE_ADDRESS"
  by (simp_all add: ASSERTION_CONTRACT_def CALLER_def PRECOMPILE_ADDRESS_def)

lemma execute_assertions_runs:
  assumes "execute_assertions rv ops bc ex sched block mfd lt = Inr results"
  obtains assertions where
    "store_read ops bc (ex_store ex) (call_traces lt) (be_number block) = Inr assertions"
    "list_all2 (\<lambda>x r. run_assertion_contract rv (ex_config ex) sched (afe_assertion_contract x)
       (afe_selectors x) block mfd (phevm_context_new lt (afe_adopter x)) = Inr r) assertions results"
proof -
  from assms obtain assertions where rd: "store_read ops bc (ex_store ex) (call_traces lt) (be_number block) = Inr assertions"
    by (auto simp: execute_assertions_def result_eqs)
  have "map (\<lambda>x. run_assertion_contract rv (ex_config ex) sched (afe_assertion_contract x)
      (afe_selectors x) block mfd (phevm_context_new lt (afe_adopter x))) assertions = map Inr results"
    using assms rd by (auto simp: execute_assertions_def par_collect_Inr split: if_splits)
  then have "list_all2 (\<lambda>x r. run_assertion_contract rv (ex_config ex) sched (afe_assertion_contract x)
       (afe_selectors x) block mfd (phevm_context_new lt (afe_adopter x)) = Inr r) assertions results"
    by (auto simp: list_all2_conv_all_nth list_eq_iff_nth_eq)
  with rd show thesis by (rule that)
qed

lemma execute_assertions_valid:
  assumes "execute_assertions rv ops bc ex sched block (multi_fork_new pre post) lt = Inr results"
    and db: "assertion_db ops bc content"
  shows "invalid_assertions results = [] \<longleftrightarrow>
    (\<forall>a s. \<forall>st \<in> set (stored bc (content (ex_store ex)) a). is_active (ucast (be_number block)) st \<longrightarrow>
       selects (as_trigger_recorder st) (fired (call_traces lt) a) s \<longrightarrow>
       assertion_holds rv (ex_config ex) block pre post lt a (as_assertion_contract st) s)"
proof -
  from assms(1) obtain assertions where
    rd: "store_read ops bc (ex_store ex) (call_traces lt) (be_number block) = Inr assertions"
    and runs: "list_all2 (\<lambda>x r. run_assertion_contract rv (ex_config ex) sched (afe_assertion_contract x)
       (afe_selectors x) block (multi_fork_new pre post) (phevm_context_new lt (afe_adopter x)) = Inr r) assertions results"
    by (rule execute_assertions_runs)
  have "invalid_assertions results = [] \<longleftrightarrow> (\<forall>x \<in> set assertions. \<forall>s \<in> set (afe_selectors x).
      assertion_holds rv (ex_config ex) block pre post lt (afe_adopter x) (afe_assertion_contract x) s)"
    unfolding invalid_assertions_empty using runs
    by (induction rule: list_all2_induct) (simp_all add: run_assertion_contract_holds)
  also have "\<dots> \<longleftrightarrow> (\<forall>a c s. (\<exists>x \<in> set assertions. afe_adopter x = a \<and> afe_assertion_contract x = c \<and>
      s \<in> set (afe_selectors x)) \<longrightarrow> assertion_holds rv (ex_config ex) block pre post lt a c s)"
    by blast
  also have "\<dots> \<longleftrightarrow> (\<forall>a s. \<forall>st \<in> set (stored bc (content (ex_store ex)) a). is_active (ucast (be_number block)) st \<longrightarrow>
       selects (as_trigger_recorder st) (fired (call_traces lt) a) s \<longrightarrow>
       assertion_holds rv (ex_config ex) block pre post lt a (as_assertion_contract st) s)"
    unfolding read_selects [OF db rd] by blast
  finally show ?thesis .
qed

lemma invalid_assertions_Nil [simp]: "invalid_assertions [] = []"
  by (simp add: invalid_assertions_def)

lemma execute_forked_tx_commits:
  "execute_forked_tx_ext_db rv cfg block tx fork_db ext = (Inr (tracer, ras), post, ext') \<Longrightarrow>
   post = fork_commit fork_db (ras_state ras)"
  by (auto simp: execute_forked_tx_ext_db_def Let_def case_prod_unfold split: sum.splits)

text \<open>The layer an assertion runs on: three accounts of its own over the forks.\<close>

lemma assertion_layer_active:
  assumes "touched (ac_account_status ac)" "\<not> self_destructed (ac_account_status ac)"
    and "db = mfd_active_db (assertion_layer rv cfg pre post ac pc)"
  shows "fork_basic db ASSERTION_CONTRACT = Some \<lparr>info_balance = - 1, info_nonce = 1,
      info_code_hash = ac_code_hash ac, info_code = Some (ac_deployed_code ac)\<rparr>"
    and "fork_storage db ASSERTION_CONTRACT =
      Some \<lparr>fsm_map = present_values (ac_storage ac), dont_read_from_inner_db = True\<rparr>"
    and "a \<notin> set DEFAULT_PERSISTENT_ACCOUNTS \<Longrightarrow> fork_basic db a = None \<and> fork_storage db a = None"
    and "a \<in> {CALLER, PRECOMPILE_ADDRESS} \<Longrightarrow> \<exists>m. fork_storage db a = Some m \<and>
      dont_read_from_inner_db m \<and> fsm_map m = Map.empty"
  unfolding assms(3) using assms(1,2)
  by (auto simp: assertion_layer_def phevm_inspector_new_def insert_precompile_account_def
      insert_assertion_contract_def mfd_commit_def fork_commit_def fork_commit_account_def hm_insert_def
      is_touched_def is_selfdestructed_def multi_fork_new_def fork_new_def fork_dont_read_def
      insert_account_info_def fork_storage_map_default_def DEFAULT_PERSISTENT_ACCOUNTS_def Let_def)

lemma reach_cut2:
  assumes "mfd_reach pre post mfd js"
  shows "mfd_reach pre post (mfd\<lparr>mfd_active_db := fork_dont_read a (fork_dont_read b (mfd_active_db mfd))\<rparr>) js"
  using mfd_cut [OF mfd_cut [OF assms, of b], of a] by simp

lemma reach_precompile:
  assumes "mfd_reach pre post mfd js"
  shows "mfd_reach pre post (insert_precompile_account d mfd) js"
  using mfd_cut [OF mfd_account [OF assms, of PRECOMPILE_ADDRESS], of PRECOMPILE_ADDRESS]
  unfolding insert_precompile_account_def by simp

lemma assertion_layer_reach: "mfd_reach pre post (assertion_layer rv cfg pre post ac pc) js"
  unfolding assertion_layer_def phevm_inspector_new_def snd_conv insert_assertion_contract_def Let_def
  by (intro reach_precompile reach_cut2 mfd_commits mfd_start)

lemma phevm_reach_layer:
  "phevm_reach abi insp ctx0 ctx \<Longrightarrow>
   fork_storage (mfd_active_db (ctx_db ctx)) = fork_storage (mfd_active_db (ctx_db ctx0)) \<and>
   fork_basic (mfd_active_db (ctx_db ctx)) = fork_basic (mfd_active_db (ctx_db ctx0))"
proof (induction rule: phevm_reach.induct)
  case (phevm_event ctx ev)
  then show ?case using phevm_event_ctx [of abi ev insp ctx] by (auto dest: switch_layer)
qed simp_all

lemma sample_runs:
  "\<exists>ex. run_assertion_contract sample_revm cfg sched ac selectors block mfd pc = Inr ex"
proof -
  have "\<exists>r. fst (execute_assertion_fn sample_revm cfg ac block mfd' pc s c) = Inr r" for mfd' s c
    by (simp add: execute_assertion_fn_def case_prod_unfold Let_def sample_revm_def)
  then have "\<exists>rs. map (\<lambda>s. fst (execute_assertion_fn sample_revm cfg ac block mfd' pc s (0, 0))) ss = map Inr rs"
    for mfd' ss by (intro map_all_Inr)
  then show ?thesis
    by (auto simp: run_assertion_contract_def Let_def case_prod_unfold result_eqs result_list_Inr)
qed

lemma sample_validates:
  fixes ex :: "('db, bytes \<Rightarrow> assertion_state list option) assertion_executor"
  shows "\<exists>r f' e'. validate_transaction_ext_db sample_revm map_sled plain_bincode ex sample_schedule
     sample_block sample_tx_env f () = (Inr r, f', e')"
proof -
  have "\<exists>results. execute_assertions sample_revm map_sled plain_bincode ex sample_schedule
      sample_block mfd lt = Inr results" for mfd lt
  proof -
    obtain xs where "store_read map_sled plain_bincode (ex_store ex) (call_traces lt)
        (be_number sample_block) = Inr xs"
      using map_db.read_total [of "ex_store ex" "be_number sample_block" "call_traces lt"]
      by (auto simp: sample_block_def)
    moreover have "\<exists>rs. map (\<lambda>x. run_assertion_contract sample_revm (ex_config ex)
        sample_schedule (afe_assertion_contract x) (afe_selectors x) sample_block mfd
        (phevm_context_new lt (afe_adopter x))) xs = map Inr rs"
      by (intro map_all_Inr sample_runs)
    ultimately show ?thesis
      by (auto simp: execute_assertions_def) (metis par_collect_Inr)
  qed
  then show ?thesis
    by (auto simp: validate_transaction_ext_db_def execute_forked_tx_ext_db_def case_prod_unfold Let_def
        sample_revm_def split: sum.split) (metis sum.distinct(1))
qed

lemma validated_iff:
  fixes sched :: "('d, 'i, 'b) schedule"
  assumes "assertion_db ops bc content"
    and "execute_forked_tx_ext_db rv (ex_config ex) block tx fork_db ext =
      (Inr (tracer, ras) :: (('d, 'i, 'b) executor_error, _) result, post, ext')"
    and "er_is_success (ras_result ras)"
    and "validate_transaction_ext_db rv ops bc ex sched block tx fork_db ext = (Inr r, fork_db', ext'')"
  shows "(is_valid r \<longleftrightarrow>
      (\<forall>a s. \<forall>st \<in> set (stored bc (content (ex_store ex)) a). is_active (ucast (be_number block)) st \<longrightarrow>
         selects (as_trigger_recorder st) (fired tracer a) s \<longrightarrow>
         assertion_holds rv (ex_config ex) block (fork_ref fork_db) (fork_ref (fork_commit fork_db (ras_state ras)))
           \<lparr>tx_logs = er_logs (ras_result ras), call_traces = tracer\<rparr> a (as_assertion_contract st) s)) \<and>
    fork_db' = (if is_valid r then fork_commit fork_db (ras_state ras) else fork_db)"
proof -
  let ?lt = "\<lparr>tx_logs = er_logs (ras_result ras), call_traces = tracer\<rparr>"
  have post: "post = fork_commit fork_db (ras_state ras)"
    using assms(2) by (rule execute_forked_tx_commits)
  from assms(2-4) obtain results where
    run: "execute_assertions rv ops bc ex sched block (multi_fork_new (fork_ref fork_db) (fork_ref post)) ?lt = Inr results"
    and r: "is_valid r \<longleftrightarrow> invalid_assertions results = []"
    and f: "fork_db' = (if is_valid r then fork_commit fork_db (ras_state ras) else fork_db)"
    by (auto simp: validate_transaction_ext_db_def is_valid_def tx_validation_result_new_def Let_def
        split: sum.splits if_splits)
  from execute_assertions_valid [OF run assms(1)] r f show ?thesis by (simp add: post)
qed

section \<open>Properties\<close>

text \<open>C1. The decision: for a transaction that executes successfully, a completed validation reports
  it valid exactly when every assertion function holds that an active assertion of some adopter
  registered for a trigger the transaction fired (run over the state before and the state after
  the transaction), and the fork then carries the transaction's changes; otherwise the fork is
  left as it was.\<close>

theorem validated_iff_assertions_hold:
  fixes sched :: "('d, 'i, 'b) schedule"
  assumes "assertion_db ops bc content"
    and "execute_forked_tx_ext_db rv (ex_config ex) block tx fork_db ext =
      (Inr (tracer, ras) :: (('d, 'i, 'b) executor_error, _) result, post, ext')"
    and "er_is_success (ras_result ras)"
    and "validate_transaction_ext_db rv ops bc ex sched block tx fork_db ext = (Inr r, fork_db', ext'')"
  shows "(is_valid r \<longleftrightarrow>
      (\<forall>a s. \<forall>st \<in> set (stored bc (content (ex_store ex)) a). is_active (ucast (be_number block)) st \<longrightarrow>
         selects (as_trigger_recorder st) (fired tracer a) s \<longrightarrow>
         assertion_holds rv (ex_config ex) block (fork_ref fork_db) (fork_ref (fork_commit fork_db (ras_state ras)))
           \<lparr>tx_logs = er_logs (ras_result ras), call_traces = tracer\<rparr> a (as_assertion_contract st) s)) \<and>
    fork_db' = (if is_valid r then fork_commit fork_db (ras_state ras) else fork_db)"
  using assms by (rule validated_iff)

text \<open>C2. Atomicity on every path: whatever happens (an EVM error, a failed transaction, an
  unreadable store, an error in an assertion's EVM, an assertion that fails), the fork after the
  validation is either exactly the fork before it, or that fork with the transaction's changes
  committed, and the latter only with a successful transaction that is reported valid.  A
  transaction that fails is reported valid with no assertion run.\<close>

theorem validation_atomic:
  assumes "validate_transaction_ext_db rv ops bc ex sched block tx fork_db ext = (res, fork_db', ext')"
  shows "(case res of
      Inl _ \<Rightarrow> fork_db' = fork_db
    | Inr r \<Rightarrow>
        (if er_is_success (ras_result (result_and_state_of r))
         then fork_db' = (if is_valid r then fork_commit fork_db (ras_state (result_and_state_of r)) else fork_db)
         else fork_db' = fork_db \<and> is_valid r \<and> assertions_executions r = []))"
  using assms
  by (auto simp: validate_transaction_ext_db_def is_valid_def tx_validation_result_new_def Let_def case_prod_unfold
      split: sum.splits if_splits)

text \<open>C6. The counters of a contract execution do not depend on how its functions are scheduled:
  the results come in the order of the selectors, the gas is the sum of the gas of the results
  (modulo \<open>2 ^ 64\<close>, exactly when it fits) and the count is the number of functions.\<close>

theorem run_assertion_contract_totals:
  fixes sched :: "('d, 'i, 'b) schedule"
  assumes "run_assertion_contract rv cfg sched ac selectors block mfd pc = Inr ex"
    and "\<And>xs. mset (sched_fns sched xs) = mset xs"
  shows "map (fn_id_selector \<circ> afr_id) (assertion_fns_results ex) = selectors \<and>
    total_assertion_gas ex = (\<Sum>r \<leftarrow> assertion_fns_results ex. er_gas_used (as_result r)) \<and>
    total_assertion_funcs_ran ex = of_nat (length selectors) \<and>
    ((\<Sum>r \<leftarrow> assertion_fns_results ex. unat (er_gas_used (as_result r))) < 2 ^ 64 \<longrightarrow>
      unat (total_assertion_gas ex) = (\<Sum>r \<leftarrow> assertion_fns_results ex. unat (er_gas_used (as_result r))))"
proof -
  let ?mfd = "insert_assertion_contract rv ac mfd"
  let ?run = "\<lambda>s c. execute_assertion_fn rv cfg ac block ?mfd pc s c ::
    (('d, 'i, 'b) executor_error, assertion_function_result) result \<times> u64 \<times> u64"
  let ?gas = "\<lambda>s. er_gas_used (as_result (projr (fst (?run s (0, 0)))))"
  from run_assertion_contract_pairs [OF assms(1)]
  have pairs: "list_all2 (\<lambda>s r. fst (?run s (0, 0)) = Inr r) selectors (assertion_fns_results ex)" .
  then have sel: "map (fn_id_selector \<circ> afr_id) (assertion_fns_results ex) = selectors"
    and gas: "map ?gas selectors = map (\<lambda>r. er_gas_used (as_result r)) (assertion_fns_results ex)"
    and ok: "\<forall>s \<in> set selectors. \<exists>r. fst (?run s (0, 0)) = Inr r"
    by (induction rule: list_all2_induct) (auto dest: execute_assertion_fn_counters)
  have "snd (?run s (g, n)) = (g + ?gas s, n + 1)" if "s \<in> set (sched_fns sched selectors)" for s g n
  proof -
    from ok mset_eq_setD [OF assms(2) [of selectors]] that obtain r where r: "fst (?run s (0, 0)) = Inr r" by auto
    from execute_assertion_fn_counters [OF r, of g n] show ?thesis unfolding r by simp
  qed
  from counters_fold [of "sched_fns sched selectors" "\<lambda>s c. snd (?run s c)" ?gas 0 0, OF this]
  have "fold (\<lambda>s c. snd (?run s c)) (sched_fns sched selectors) (0, 0) =
      (\<Sum>s \<leftarrow> selectors. ?gas s, of_nat (length selectors))"
    using sum_list_perm [OF assms(2) [of selectors], of ?gas] mset_eq_length [OF assms(2) [of selectors]] by simp
  with assms(1) have t: "total_assertion_gas ex = (\<Sum>s \<leftarrow> selectors. ?gas s)"
    "total_assertion_funcs_ran ex = of_nat (length selectors)"
    by (auto simp: run_assertion_contract_def Let_def result_eqs)
  show ?thesis
    using sum_list_u64_no_wrap [of "map (\<lambda>r. er_gas_used (as_result r)) (assertion_fns_results ex)"]
    by (simp add: t sel gas) (simp add: comp_def)
qed

text \<open>C4. What an assertion can see, at every point of its execution and on whichever fork it is: its
  own contract has the stored code and exactly the stored storage (nothing of the chain's storage
  at that address shows through), its caller and the precompile have empty storage, and every
  other account is the one of the transaction's side that is active.\<close>

theorem assertion_sees_transaction_states:
  assumes "touched (ac_account_status ac)" and "\<not> self_destructed (ac_account_status ac)"
    and "phevm_reach abi insp \<lparr>ctx_db = assertion_layer rv cfg pre post ac pc, ctx_js = js\<rparr> ctx"
  shows "mfd_basic_ref (ctx_db ctx) ASSERTION_CONTRACT = Inr (Some \<lparr>info_balance = - 1, info_nonce = 1,
      info_code_hash = ac_code_hash ac, info_code = Some (ac_deployed_code ac)\<rparr>) \<and>
    mfd_storage_ref (ctx_db ctx) ASSERTION_CONTRACT slot = Inr (case hm_get (ac_storage ac) slot of
        None \<Rightarrow> 0 | Some sl \<Rightarrow> present_value sl) \<and>
    mfd_storage_ref (ctx_db ctx) CALLER slot = Inr 0 \<and>
    mfd_storage_ref (ctx_db ctx) PRECOMPILE_ADDRESS slot = Inr 0 \<and>
    (\<forall>a. a \<notin> {ASSERTION_CONTRACT, CALLER, PRECOMPILE_ADDRESS} \<longrightarrow>
       mfd_basic_ref (ctx_db ctx) a = basic_ref (case active_fork_id (ctx_db ctx) of PreTx \<Rightarrow> pre | PostTx \<Rightarrow> post) a \<and>
       mfd_storage_ref (ctx_db ctx) a slot =
         storage_ref (case active_fork_id (ctx_db ctx) of PreTx \<Rightarrow> pre | PostTx \<Rightarrow> post) a slot)"
proof -
  let ?ctx0 = "\<lparr>ctx_db = assertion_layer rv cfg pre post ac pc, ctx_js = js\<rparr>"
  let ?db = "mfd_active_db (ctx_db ctx)"
  note layer = assertion_layer_active [OF assms(1,2) refl, where rv = rv and cfg = cfg and pre = pre and post = post and pc = pc]
  have st: "fork_storage ?db = fork_storage (mfd_active_db (assertion_layer rv cfg pre post ac pc))"
    and ba: "fork_basic ?db = fork_basic (mfd_active_db (assertion_layer rv cfg pre post ac pc))"
    using phevm_reach_layer [OF assms(3)] by simp_all
  have "mfd_reach pre post (ctx_db ctx) (ctx_js ctx)"
    by (rule phevm_reach_mfd [OF assms(3)]) (simp, rule assertion_layer_reach)
  note inner = reach_inner_db [OF this]
  have empty: "mfd_storage_ref (ctx_db ctx) a slot = Inr 0" if "a \<in> {CALLER, PRECOMPILE_ADDRESS}" for a
    using layer(4) [OF that] by (auto simp: mfd_storage_ref_def fork_storage_ref_def st)
  have rest: "mfd_basic_ref (ctx_db ctx) a = basic_ref (tx_states pre post (active_fork_id (ctx_db ctx))) a \<and>
      mfd_storage_ref (ctx_db ctx) a slot = storage_ref (tx_states pre post (active_fork_id (ctx_db ctx))) a slot"
    if "a \<notin> {ASSERTION_CONTRACT, CALLER, PRECOMPILE_ADDRESS}" for a
    using layer(3) [of a] that
    by (simp add: mfd_storage_ref_def mfd_basic_ref_def fork_storage_ref_def fork_basic_ref_def st ba inner
        DEFAULT_PERSISTENT_ACCOUNTS_def)
  show ?thesis
    using layer(1,2) empty rest
    by (auto simp: mfd_basic_ref_def mfd_storage_ref_def fork_basic_ref_def fork_storage_ref_def st ba
        tx_states_def split: option.split)
qed

theorem validated_iff_assertions_hold_witness:
  "\<exists>r ext'. validate_transaction_ext_db sample_revm map_sled plain_bincode sample_executor sample_schedule
      sample_block sample_tx_env (fork_new (sample_db 1)) () = (Inr r, fork_new (sample_db 1), ext') \<and> \<not> is_valid r"
proof -
  let ?ct = "record_call call_tracer_new (sample_call 7 [])"
  let ?ras = "\<lparr>ras_result = EvmSuccess 21000 [] [], ras_state = []\<rparr>"
  let ?fork = "fork_new (sample_db 1)"
  have tx: "execute_forked_tx_ext_db sample_revm (ex_config sample_executor) sample_block sample_tx_env ?fork () =
      (Inr (?ct, ?ras) :: ((unit, unit, unit) executor_error, _) result, ?fork, ())"
    by (simp add: execute_forked_tx_ext_db_def sample_revm_def new_tx_fork_evm_def new_ctx_and_handler_cfg_def
        fork_commit_def)
  obtain r f' e' where v: "validate_transaction_ext_db sample_revm map_sled plain_bincode sample_executor
      sample_schedule sample_block sample_tx_env ?fork () = (Inr r, f', e')"
    using sample_validates by blast
  have "Call 0 \<in> fired ?ct 7"
    by (simp add: fired_eq record_call_def call_tracer_new_def sample_call_def input_selector_def)
  then have "selects \<lparr>recorded_triggers = [(AllCalls, [9])]\<rparr> (fired ?ct 7) 9"
    by (auto simp: selects_def registered_def is_call_trigger_def intro!: bexI [of _ "Call 0"])
  moreover have "\<not> assertion_holds sample_revm cfg block pre post lt a ac s" for cfg block pre post lt a ac s
    by (simp add: assertion_holds_def execute_assertion_fn_def case_prod_unfold Let_def sample_revm_def
        afr_is_success_def)
  ultimately have "\<not> is_valid r \<and> f' = ?fork"
    using validated_iff_assertions_hold [OF map_db.assertion_db_axioms tx _ v]
    by (auto simp: sample_executor_def config_build_def stored_def plain_bincode_def is_active_iff u64_max_def
        sample_block_def)
  with v show ?thesis by blast
qed

theorem validation_atomic_witness:
  "fst (snd (validate_transaction_ext_db sample_revm map_sled plain_bincode
      (sample_executor\<lparr>ex_store := Map.empty\<rparr>) sample_schedule (sample_block\<lparr>be_number := 0x10000000000000000\<rparr>) sample_tx_env
      (fork_new (sample_db 1)) ())) = fork_new (sample_db 1)"
proof -
  obtain res f' e' where v: "validate_transaction_ext_db sample_revm map_sled plain_bincode
      (sample_executor\<lparr>ex_store := Map.empty\<rparr>) sample_schedule (sample_block\<lparr>be_number := 0x10000000000000000\<rparr>) sample_tx_env
      (fork_new (sample_db 1)) () = (res, f', e')" by (rule prod_cases3)
  have "\<exists>e. res = Inl e"
    using v by (auto simp: validate_transaction_ext_db_def execute_forked_tx_ext_db_def sample_revm_def
        new_tx_fork_evm_def new_ctx_and_handler_cfg_def execute_assertions_def store_read_def try_into_u64_def)
  with validation_atomic [OF v] v show ?thesis by auto
qed

theorem run_assertion_contract_totals_witness:
  "\<exists>ex. run_assertion_contract sample_revm (executor_config_default 17) sample_schedule sample_contract [9, 8]
      sample_block (ctx_db sample_ctx) (phevm_context_new \<lparr>tx_logs = [], call_traces = call_tracer_new\<rparr> 42) = Inr ex \<and>
    total_assertion_gas ex = 100 \<and> total_assertion_funcs_ran ex = 2"
proof -
  obtain ex where ex: "run_assertion_contract sample_revm (executor_config_default 17) sample_schedule
      sample_contract [9, 8] sample_block (ctx_db sample_ctx)
      (phevm_context_new \<lparr>tx_logs = [], call_traces = call_tracer_new\<rparr> 42) = Inr ex"
    using sample_runs by blast
  moreover from run_assertion_contract_results [OF ex]
  have "map (er_gas_used \<circ> as_result) (assertion_fns_results ex) = [50, 50]"
    by (auto simp: execute_assertion_fn_def case_prod_unfold Let_def sample_revm_def as_result_def)
  moreover have "\<And>xs. mset (sched_fns sample_schedule xs) = mset xs" by (simp add: sample_schedule_def)
  note run_assertion_contract_totals [OF ex this]
  ultimately show ?thesis by (auto simp: comp_def)
qed

theorem assertion_sees_transaction_states_witness:
  "mfd_storage_ref (assertion_layer sample_revm (executor_config_default 17) (sample_db 1) (sample_db 2)
      sample_contract (phevm_context_of sample_inspector)) ASSERTION_CONTRACT 0 = Inr 3"
  using assertion_sees_transaction_states [of sample_contract, OF _ _ phevm_start, of sample_revm
      "executor_config_default 17" "sample_db 1" "sample_db 2" "phevm_context_of sample_inspector" sample_js 0]
  by (simp add: sample_contract_def)

end
