(* ===== verification/Reorg.thy ===== *)
theory Reorg
  imports Primitives
begin

text \<open>
  \<^verbatim>\<open>src/utils/reorg_utils.rs\<close>: does a new block extend the block that was indexed last?  The provider is
  the parameter \<open>rpc\<close>, one snapshot of the node for the duration of a call; \<open>chain_provider\<close> is what a
  node promises of the blocks it returns.  The walk over parents is a loop that may not end, so it is
  a \<^theory_text>\<open>partial_function\<close> in the option monad; over a chain it always ends.
\<close>

section \<open>The provider\<close>

record block_header =
  hdr_number :: u64
  hdr_hash :: b256
  hdr_parent_hash :: b256

record block_num_hash =
  bnh_number :: u64
  bnh_hash :: b256

datatype block_number_or_tag = TagLatest | TagFinalized | TagSafe | TagNumber u64

record rpc_log =
  rl_topics :: "b256 list"
  rl_data :: bytes
  rl_block_number :: "u64 option"
  rl_log_index :: "u64 option"

record 'tr rpc =
  get_block_by_hash :: "b256 \<Rightarrow> ('tr, block_header option) result"
  get_block_by_number :: "block_number_or_tag \<Rightarrow> ('tr, block_header option) result"
  get_logs_in :: "address \<Rightarrow> u64 \<Rightarrow> u64 \<Rightarrow> ('tr, rpc_log list) result"

section \<open>Definitions\<close>

datatype 'tr check_if_reorged_error = ReorgParentBlockNotFound | ReorgTransportError 'tr

partial_function (option) reorg_walk ::
  "'tr rpc \<Rightarrow> block_num_hash \<Rightarrow> b256 \<Rightarrow> ('tr check_if_reorged_error, bool) result option" where
  "reorg_walk p lst cursor_hash = (case get_block_by_hash p cursor_hash of
       Inl e \<Rightarrow> Some (Inl (ReorgTransportError e))
     | Inr None \<Rightarrow> Some (Inl ReorgParentBlockNotFound)
     | Inr (Some hdr) \<Rightarrow>
         if hdr_number hdr \<noteq> bnh_number lst then reorg_walk p lst (hdr_parent_hash hdr)
         else Some (Inr (hdr_hash hdr \<noteq> bnh_hash lst)))"

definition check_if_reorged ::
  "'tr rpc \<Rightarrow> update_block \<Rightarrow> block_num_hash \<Rightarrow> ('tr check_if_reorged_error, bool) result option" where
  "check_if_reorged p upd lst =
     (if ub_block_number upd = bnh_number lst
      then Some (Inr (ub_block_hash upd \<noteq> bnh_hash lst))
      else reorg_walk p lst (ub_parent_hash upd))"

section \<open>Chains\<close>

inductive ancestor :: "'tr rpc \<Rightarrow> b256 \<Rightarrow> block_header \<Rightarrow> bool" for p where
  anc_here: "get_block_by_hash p h = Inr (Some blk) \<Longrightarrow> ancestor p h blk"
| anc_parent: "get_block_by_hash p h = Inr (Some blk) \<Longrightarrow> ancestor p (hdr_parent_hash blk) blk' \<Longrightarrow>
    ancestor p h blk'"

inductive_cases ancestorE: "ancestor p h blk"

inductive_simps ancestor_unfold: "ancestor p h blk"

text \<open>A node of a chain: a block is returned under its own hash, and a parent's number is one less.\<close>

locale chain_provider =
  fixes p :: "'tr rpc"
  assumes own_hash: "get_block_by_hash p h = Inr (Some blk) \<Longrightarrow> hdr_hash blk = h"
    and parent_number: "get_block_by_hash p h = Inr (Some blk) \<Longrightarrow>
      get_block_by_hash p (hdr_parent_hash blk) = Inr (Some blk') \<Longrightarrow>
      Suc (unat (hdr_number blk')) = unat (hdr_number blk)"
begin

lemma ancestor_number:
  "ancestor p h blk' \<Longrightarrow> get_block_by_hash p h = Inr (Some blk) \<Longrightarrow> unat (hdr_number blk') \<le> unat (hdr_number blk)"
proof (induction arbitrary: blk rule: ancestor.induct)
  case (anc_here h blk)
  then show ?case by simp
next
  case (anc_parent h blk1 blk')
  then have eq: "blk1 = blk" by simp
  from anc_parent.hyps(2) obtain blk2 where "get_block_by_hash p (hdr_parent_hash blk) = Inr (Some blk2)"
    unfolding eq by (cases rule: ancestorE) auto
  with anc_parent.IH parent_number [OF anc_parent.prems this] show ?case by (fastforce simp: eq)
qed

lemma ancestor_below:
  assumes "get_block_by_hash p h = Inr (Some blk)" and "ancestor p (hdr_parent_hash blk) blk'"
  shows "unat (hdr_number blk') < unat (hdr_number blk)"
proof -
  from assms(2) obtain blk2 where 2: "get_block_by_hash p (hdr_parent_hash blk) = Inr (Some blk2)"
    by (cases rule: ancestorE) auto
  from ancestor_number [OF assms(2) 2] parent_number [OF assms(1) 2] show ?thesis by simp
qed

lemma ancestor_unique:
  "ancestor p h blk1 \<Longrightarrow> ancestor p h blk2 \<Longrightarrow> hdr_number blk1 = hdr_number blk2 \<Longrightarrow> blk1 = blk2"
proof (induction arbitrary: blk2 rule: ancestor.induct)
  case (anc_here h blk)
  from anc_here.prems(1) consider "get_block_by_hash p h = Inr (Some blk2)"
    | "ancestor p (hdr_parent_hash blk) blk2"
    using anc_here.hyps by (auto elim: ancestorE)
  then show ?case
  proof cases
    case 1
    with anc_here.hyps show ?thesis by simp
  next
    case 2
    from ancestor_below [OF anc_here.hyps this] anc_here.prems(2) show ?thesis by simp
  qed
next
  case (anc_parent h blk blk1)
  from anc_parent.prems(1) consider "get_block_by_hash p h = Inr (Some blk2)"
    | "ancestor p (hdr_parent_hash blk) blk2"
    using anc_parent.hyps by (auto elim: ancestorE)
  then show ?case
  proof cases
    case 1
    with ancestor_below [OF anc_parent.hyps] anc_parent.hyps(1) anc_parent.prems(2) show ?thesis by simp
  next
    case 2
    from anc_parent.IH [OF this anc_parent.prems(2)] show ?thesis .
  qed
qed

lemma walk_returns: "\<exists>r. reorg_walk p lst h = Some r"
proof (induction "case get_block_by_hash p h of Inr (Some blk) \<Rightarrow> Suc (unat (hdr_number blk)) | _ \<Rightarrow> 0"
    arbitrary: h rule: less_induct)
  case less
  show ?case
  proof (cases "get_block_by_hash p h")
    case (Inl e)
    then show ?thesis by (subst reorg_walk.simps) simp
  next
    case (Inr b)
    show ?thesis
    proof (cases b)
      case None
      with Inr show ?thesis by (subst reorg_walk.simps) simp
    next
      case (Some blk)
      have "\<exists>r. reorg_walk p lst (hdr_parent_hash blk) = Some r"
        by (rule less) (use Inr Some parent_number [of h blk] in \<open>auto split: sum.splits option.splits\<close>)
      with Inr Some show ?thesis by (subst reorg_walk.simps) simp
    qed
  qed
qed

end

lemma walk_result:
  assumes "reorg_walk p lst h = Some (Inr b)"
  shows "\<exists>blk. ancestor p h blk \<and> hdr_number blk = bnh_number lst \<and> b = (hdr_hash blk \<noteq> bnh_hash lst)"
proof -
  have "\<forall>b. y = Inr b \<longrightarrow> (\<exists>blk. ancestor p h blk \<and> hdr_number blk = bnh_number lst \<and> b = (hdr_hash blk \<noteq> bnh_hash lst))"
    if "reorg_walk p lst h = Some y" for y
    by (rule reorg_walk.raw_induct [where P = "\<lambda>p lst h y. \<forall>b. y = Inr b \<longrightarrow> (\<exists>blk. ancestor p h blk \<and>
          hdr_number blk = bnh_number lst \<and> b = (hdr_hash blk \<noteq> bnh_hash lst))", OF _ that])
      (fastforce split: sum.splits option.splits if_splits intro: anc_here anc_parent)
  with assms show ?thesis by blast
qed

lemma walk_error:
  assumes "reorg_walk p lst h = Some (Inl e)" and "hdr_number blk = bnh_number lst"
  shows "\<not> ancestor p h blk"
proof
  assume "ancestor p h blk"
  then show False using assms
  proof (induction rule: ancestor.induct)
    case (anc_here h blk)
    then show ?case by (subst (asm) reorg_walk.simps) simp
  next
    case (anc_parent h blk1 blk)
    then show ?case by (subst (asm) (2) reorg_walk.simps) (simp split: if_splits)
  qed
qed

text \<open>The block at a height of the chain a new block ends: the new block itself, or one of its ancestors.\<close>

definition on_chain :: "'tr rpc \<Rightarrow> update_block \<Rightarrow> u64 \<Rightarrow> b256 \<Rightarrow> bool" where
  "on_chain p upd n h \<longleftrightarrow> (if ub_block_number upd = n then h = ub_block_hash upd
     else \<exists>blk. ancestor p (ub_parent_hash upd) blk \<and> hdr_number blk = n \<and> hdr_hash blk = h)"

section \<open>A concrete chain\<close>

definition sample_chain :: "nat \<Rightarrow> unit rpc" where
  "sample_chain n =
     \<lparr>get_block_by_hash = \<lambda>h. Inr (if 0 < unat h \<and> unat h \<le> n \<and> n < 2 ^ 64
        then Some \<lparr>hdr_number = of_nat (unat h - 1), hdr_hash = h, hdr_parent_hash = h - 1\<rparr> else None),
      get_block_by_number = \<lambda>t. Inr (case t of
          TagNumber i \<Rightarrow> if unat i < n \<and> n < 2 ^ 64
            then Some \<lparr>hdr_number = i, hdr_hash = ucast i + 1, hdr_parent_hash = ucast i\<rparr> else None
        | _ \<Rightarrow> Some \<lparr>hdr_number = 0, hdr_hash = 1, hdr_parent_hash = 0\<rparr>),
      get_logs_in = \<lambda>_ _ _. Inr []\<rparr>"

interpretation sample_chain: chain_provider "sample_chain n"
proof
  fix h blk
  assume "get_block_by_hash (sample_chain n) h = Inr (Some blk)"
  then show "hdr_hash blk = h" by (auto simp: sample_chain_def split: if_splits)
next
  fix h blk blk'
  assume 1: "get_block_by_hash (sample_chain n) h = Inr (Some blk)"
    and 2: "get_block_by_hash (sample_chain n) (hdr_parent_hash blk) = Inr (Some blk')"
  from 1 have h: "0 < unat h" "unat h \<le> n" "n < 2 ^ 64" "hdr_parent_hash blk = h - 1"
    "hdr_number blk = of_nat (unat h - 1)"
    by (auto simp: sample_chain_def split: if_splits)
  have u: "unat (h - 1) = unat h - 1"
    using h(1) by (metis unat_minus_one unat_0 less_irrefl)
  from 2 h(4) have h': "0 < unat (h - 1)" "hdr_number blk' = of_nat (unat (h - 1) - 1)"
    by (auto simp: sample_chain_def split: if_splits)
  have "unat (of_nat (unat h - 1) :: u64) = unat h - 1" "unat (of_nat (unat h - 1 - 1) :: u64) = unat h - 1 - 1"
    using h by (auto simp only: unat_of_nat intro!: mod_less) simp_all
  with h h' u show "Suc (unat (hdr_number blk')) = unat (hdr_number blk)" by simp
qed

section \<open>Properties\<close>

text \<open>C15. The reorg check terminates and is exact: over the blocks of a chain, whatever their number, it
  always returns; when it answers, the answer is no exactly when the last indexed block is on the
  new block's chain, which for a new block at the last indexed height means that it is the new block
  itself; and it fails exactly when the new block's chain has no block at the last indexed height that
  the node can return, never when that height is the new block's own.\<close>

theorem check_if_reorged_exact:
  assumes "chain_provider p"
  shows "\<exists>r. check_if_reorged p upd lst = Some r \<and>
    (\<forall>reorged. r = Inr reorged \<longrightarrow> (reorged \<longleftrightarrow> \<not> on_chain p upd (bnh_number lst) (bnh_hash lst))) \<and>
    ((\<exists>e. r = Inl e) \<longleftrightarrow> \<not> (\<exists>h. on_chain p upd (bnh_number lst) h))"
proof (cases "ub_block_number upd = bnh_number lst")
  case True
  then show ?thesis by (auto simp: check_if_reorged_def on_chain_def)
next
  case False
  obtain r where r: "reorg_walk p lst (ub_parent_hash upd) = Some r"
    using chain_provider.walk_returns [OF assms] by blast
  with False have c: "check_if_reorged p upd lst = Some r" by (simp add: check_if_reorged_def)
  show ?thesis
  proof (cases r)
    case (Inr b)
    from walk_result [OF r [unfolded Inr]] obtain blk where blk: "ancestor p (ub_parent_hash upd) blk"
      "hdr_number blk = bnh_number lst" "b = (hdr_hash blk \<noteq> bnh_hash lst)" by blast
    from chain_provider.ancestor_unique [OF assms blk(1)] blk(2)
    have "(\<exists>blk'. ancestor p (ub_parent_hash upd) blk' \<and> hdr_number blk' = bnh_number lst \<and> hdr_hash blk' = h) \<longleftrightarrow>
        h = hdr_hash blk" for h
      using blk(1,2) by metis
    with False have on: "on_chain p upd (bnh_number lst) h \<longleftrightarrow> h = hdr_hash blk" for h
      by (simp add: on_chain_def)
    have "b \<longleftrightarrow> \<not> on_chain p upd (bnh_number lst) (bnh_hash lst)" unfolding on blk(3) by metis
    moreover have "\<exists>h. on_chain p upd (bnh_number lst) h" unfolding on by blast
    ultimately show ?thesis unfolding c Inr by simp
  next
    case (Inl e)
    with walk_error [OF r [unfolded Inl]] c False show ?thesis by (auto simp: on_chain_def)
  qed
qed

text \<open>Block 3 of a chain against the indexed block 1, once on the chain and once not, and against another
  block 3.\<close>

theorem check_if_reorged_exact_witness:
  "check_if_reorged (sample_chain 4) \<lparr>ub_block_number = 3, ub_block_hash = 4, ub_parent_hash = 3\<rparr>
     \<lparr>bnh_number = 1, bnh_hash = 2\<rparr> = Some (Inr False) \<and>
   check_if_reorged (sample_chain 4) \<lparr>ub_block_number = 3, ub_block_hash = 4, ub_parent_hash = 3\<rparr>
     \<lparr>bnh_number = 1, bnh_hash = 9\<rparr> = Some (Inr True) \<and>
   check_if_reorged (sample_chain 4) \<lparr>ub_block_number = 3, ub_block_hash = 4, ub_parent_hash = 3\<rparr>
     \<lparr>bnh_number = 3, bnh_hash = 9\<rparr> = Some (Inr True)"
  (is "check_if_reorged ?p ?u ?l = _ \<and> check_if_reorged _ _ ?l' = _ \<and> check_if_reorged _ _ ?l3 = _")
proof -
  have g3: "get_block_by_hash ?p 3 = Inr (Some \<lparr>hdr_number = 2, hdr_hash = 3, hdr_parent_hash = 2\<rparr>)"
    and g2: "get_block_by_hash ?p 2 = Inr (Some \<lparr>hdr_number = 1, hdr_hash = 2, hdr_parent_hash = 1\<rparr>)"
    by (simp_all add: sample_chain_def)
  have a: "ancestor ?p (ub_parent_hash ?u) \<lparr>hdr_number = 1, hdr_hash = 2, hdr_parent_hash = 1\<rparr>"
    using anc_parent [OF g3] anc_here [OF g2] by simp
  have u: "blk = \<lparr>hdr_number = 1, hdr_hash = 2, hdr_parent_hash = 1\<rparr>"
    if "ancestor ?p (ub_parent_hash ?u) blk" "hdr_number blk = 1" for blk
    using sample_chain.ancestor_unique [OF that(1) a] that(2) by simp
  have on: "on_chain ?p ?u 1 h \<longleftrightarrow> h = 2" "on_chain ?p ?u 3 h \<longleftrightarrow> h = 4" for h
    using a u by (force simp: on_chain_def)+
  note exact = check_if_reorged_exact [OF sample_chain.chain_provider_axioms [of 4], of ?u]
  have "check_if_reorged ?p ?u l = Some (Inr (bnh_hash l \<noteq> h))" if "\<And>h'. on_chain ?p ?u (bnh_number l) h' \<longleftrightarrow> h' = h" for l h
  proof -
    from exact [of l] that obtain r where r: "check_if_reorged ?p ?u l = Some r"
      "\<forall>reorged. r = Inr reorged \<longrightarrow> (reorged \<longleftrightarrow> bnh_hash l \<noteq> h)" "\<not> (\<exists>e. r = Inl e)" by auto
    then show ?thesis by (cases r) auto
  qed
  from this [of ?l 2] this [of ?l' 2] this [of ?l3 4] on show ?thesis by simp
qed

end
