(* ===== verification/Trees.thy ===== *)
theory Trees
  imports AssertionStore Reorg
begin

text \<open>
  What the indexer keeps its progress in: \<^verbatim>\<open>sled\<close> trees ordered by key, bincode for their keys and
  values, and Rust's \<^verbatim>\<open>BTreeMap\<close>.  sled and bincode are the parameters \<open>tree_ops\<close> and \<open>index_codec\<close>;
  the locale \<open>index_trees\<close> says what their documentation promises of a call that succeeds (a failed
  call promises nothing of the tree), \<open>index_trees_available\<close> adds that calls succeed.  A
  \<^verbatim>\<open>BTreeMap\<close> is an association list in ascending key order, which is its iteration order.
\<close>

section \<open>Ordered maps\<close>

type_synonym ('k, 'v) btree_map = "('k \<times> 'v) list"

primrec bt_insert :: "'k::linorder \<Rightarrow> 'v \<Rightarrow> ('k, 'v) btree_map \<Rightarrow> ('k, 'v) btree_map" where
  "bt_insert k v [] = [(k, v)]"
| "bt_insert k v (e # es) =
     (if k < fst e then (k, v) # e # es
      else if k = fst e then (k, v) # es
      else e # bt_insert k v es)"

definition bt_entry :: "'k::linorder \<Rightarrow> 'v \<Rightarrow> ('v \<Rightarrow> 'v) \<Rightarrow> ('k, 'v) btree_map \<Rightarrow> ('k, 'v) btree_map" where
  "bt_entry k d f m = bt_insert k (f (case map_of m k of None \<Rightarrow> d | Some v \<Rightarrow> v)) m"

definition bt_values :: "('k, 'v) btree_map \<Rightarrow> 'v list" where
  "bt_values m = map snd m"

definition bt_ok :: "('k::linorder, 'v) btree_map \<Rightarrow> bool" where
  "bt_ok m = sorted_wrt (<) (map fst m)"

lemma set_bt_insert_keys: "fst ` set (bt_insert k v m) = insert k (fst ` set m)"
  by (induction m) auto

lemma bt_ok_Nil [simp]: "bt_ok []"
  by (simp add: bt_ok_def)

lemma bt_ok_insert [simp]: "bt_ok m \<Longrightarrow> bt_ok (bt_insert k v m)"
proof (induction m)
  case (Cons e es)
  have "fst e < x" if "x \<in> fst ` set (bt_insert k v es)" "fst e < k" for x
    using that Cons.prems by (auto simp: bt_ok_def set_bt_insert_keys)
  with Cons show ?case by (auto simp: bt_ok_def)
qed (simp add: bt_ok_def)

lemma bt_ok_entry [simp]: "bt_ok m \<Longrightarrow> bt_ok (bt_entry k d f m)"
  by (simp add: bt_entry_def)

lemma bt_ok_distinct: "bt_ok m \<Longrightarrow> distinct (map fst m)"
  by (simp add: bt_ok_def strict_sorted_iff)

lemma map_of_bt_insert [simp]: "bt_ok m \<Longrightarrow> map_of (bt_insert k v m) = (map_of m)(k \<mapsto> v)"
proof (induction m)
  case (Cons e es)
  then have "bt_ok es" by (simp add: bt_ok_def)
  with Cons.IH show ?case by (cases e) (auto simp: fun_eq_iff)
qed auto

lemma map_of_bt_entry [simp]:
  "bt_ok m \<Longrightarrow> map_of (bt_entry k d f m) =
     (map_of m)(k \<mapsto> f (case map_of m k of None \<Rightarrow> d | Some v \<Rightarrow> v))"
  by (simp add: bt_entry_def)

section \<open>Trees and the serializer\<close>

record ('t, 'k, 'v, 'e) tree_ops =
  tree_get :: "'t \<Rightarrow> 'k \<Rightarrow> ('e, 'v option) result"
  tree_insert :: "'t \<Rightarrow> 'k \<Rightarrow> 'v \<Rightarrow> ('e, 'v option) result \<times> 't"
  tree_remove :: "'t \<Rightarrow> 'k \<Rightarrow> ('e, 'v option) result \<times> 't"
  tree_pop_first_to :: "'t \<Rightarrow> 'k \<Rightarrow> ('e, ('k \<times> 'v) option) result \<times> 't"
  tree_pop_first_from :: "'t \<Rightarrow> 'k \<Rightarrow> ('e, ('k \<times> 'v) option) result \<times> 't"
  tree_apply_batch :: "'t \<Rightarrow> ('k \<times> 'v) list \<Rightarrow> ('e, unit) result \<times> 't"

record ('k, 'v, 'e) index_codec =
  ser_u256 :: "u256 \<Rightarrow> ('e, 'k) result"
  ser_b256 :: "b256 \<Rightarrow> ('e, 'v) result"
  ser_mods :: "pending_modification list \<Rightarrow> ('e, 'v) result"
  de_mods :: "'v \<Rightarrow> ('e, pending_modification list) result"
  ser_block_num_hash :: "block_num_hash \<Rightarrow> ('e, 'v) result"
  de_block_num_hash :: "'v \<Rightarrow> ('e, block_num_hash) result"
  empty_key :: 'k

definition ser_u64 :: "('k, 'v, 'e) index_codec \<Rightarrow> u64 \<Rightarrow> ('e, 'k) result" where
  "ser_u64 c n = ser_u256 c (ucast n)"

text \<open>The entry of a block number, and whether it holds a hash.\<close>

definition entry_at :: "('k, 'v, 'e) index_codec \<Rightarrow> ('k \<rightharpoonup> 'v) \<Rightarrow> u64 \<Rightarrow> 'v option" where
  "entry_at c ct n = (case ser_u64 c n of Inl _ \<Rightarrow> None | Inr k \<Rightarrow> ct k)"

definition hash_is :: "('k, 'v, 'e) index_codec \<Rightarrow> ('k \<rightharpoonup> 'v) \<Rightarrow> u64 \<Rightarrow> b256 \<Rightarrow> bool" where
  "hash_is c ct n h = (case entry_at c ct n of
       None \<Rightarrow> False
     | Some v \<Rightarrow> ser_b256 c h = Inr v)"

definition block_keys :: "('k, 'v, 'e) index_codec \<Rightarrow> ('k \<rightharpoonup> 'v) \<Rightarrow> bool" where
  "block_keys c ct \<longleftrightarrow> (\<forall>k \<in> dom ct. \<exists>n. ser_u64 c n = Inr k)"

section \<open>What trees and serializer promise\<close>

lemma ucast_less_iff_u64: "(ucast a :: u256) < ucast b \<longleftrightarrow> a < b" for a b :: u64
  by transfer (simp add: take_bit_eq_mod)

locale index_trees =
  fixes T :: "('t, 'k::linorder, 'v, 'e) tree_ops" and C :: "('k, 'v, 'e) index_codec"
    and tcontent :: "'t \<Rightarrow> 'k \<rightharpoonup> 'v"
  assumes finite_tree: "finite (dom (tcontent t))"
    and get_entry: "tree_get T t k = Inr cur \<Longrightarrow> cur = tcontent t k"
    and insert_entry: "tree_insert T t k v = (Inr old, t') \<Longrightarrow> tcontent t' = (tcontent t)(k \<mapsto> v)"
    and remove_entry: "tree_remove T t k = (Inr old, t') \<Longrightarrow>
      old = tcontent t k \<and> tcontent t' = (tcontent t)(k := None)"
    and pop_to_none: "tree_pop_first_to T t b = (Inr None, t') \<Longrightarrow>
      tcontent t' = tcontent t \<and> (\<forall>k \<in> dom (tcontent t). b \<le> k)"
    and pop_to_some: "tree_pop_first_to T t b = (Inr (Some (k, v)), t') \<Longrightarrow>
      tcontent t k = Some v \<and> k < b \<and> (\<forall>k' \<in> dom (tcontent t). k \<le> k') \<and>
      tcontent t' = (tcontent t)(k := None)"
    and pop_from_none: "tree_pop_first_from T t b = (Inr None, t') \<Longrightarrow>
      tcontent t' = tcontent t \<and> (\<forall>k \<in> dom (tcontent t). k < b)"
    and pop_from_some: "tree_pop_first_from T t b = (Inr (Some (k, v)), t') \<Longrightarrow>
      tcontent t k = Some v \<and> b \<le> k \<and> (\<forall>k' \<in> dom (tcontent t). b \<le> k' \<longrightarrow> k \<le> k') \<and>
      tcontent t' = (tcontent t)(k := None)"
    and batch_entries: "tree_apply_batch T t kvs = (Inr u, t') \<Longrightarrow>
      tcontent t' = tcontent t ++ map_of (rev kvs)"
    and key_order: "ser_u256 C n = Inr k \<Longrightarrow> ser_u256 C m = Inr k' \<Longrightarrow> k < k' \<longleftrightarrow> n < m"
    and hash_injective: "ser_b256 C h = Inr v \<Longrightarrow> ser_b256 C h' = Inr v \<Longrightarrow> h = h'"
    and mods_round_trip: "ser_mods C ms = Inr v \<Longrightarrow> de_mods C v = Inr ms"
    and num_hash_round_trip: "ser_block_num_hash C bnh = Inr v \<Longrightarrow> de_block_num_hash C v = Inr bnh"
begin

lemma u64_key_order: "ser_u64 C a = Inr k \<Longrightarrow> ser_u64 C b = Inr k' \<Longrightarrow> k < k' \<longleftrightarrow> a < b"
  using key_order [of "ucast a" k "ucast b" k'] by (simp add: ser_u64_def ucast_less_iff_u64)

lemma u64_key_inj: "ser_u64 C a = Inr k \<Longrightarrow> ser_u64 C b = Inr k \<Longrightarrow> a = b"
  using u64_key_order [of a k b k] u64_key_order [of b k a k] by (metis less_irrefl linorder_less_linear)

lemma entry_at_update:
  "ser_u64 C n = Inr k \<Longrightarrow> entry_at C (ct(k := v)) m = (if m = n then v else entry_at C ct m)"
  by (auto simp: entry_at_def dest: u64_key_inj split: sum.split)

lemma block_keys_remove: "block_keys C ct \<Longrightarrow> block_keys C (ct(k := None))"
  by (auto simp: block_keys_def)

lemma remove_shrinks: "tcontent t k = Some v \<Longrightarrow> tcontent t' = (tcontent t)(k := None) \<Longrightarrow>
    card (dom (tcontent t')) < card (dom (tcontent t))"
  by (auto intro!: psubset_card_mono simp: finite_tree)

lemma entry_key:
  assumes "entry_at C ct m \<noteq> None"
  obtains k where "ser_u64 C m = Inr k" and "k \<in> dom ct"
  using assms by (auto simp: entry_at_def dom_def split: sum.splits)

lemma pop_to_block:
  assumes "block_keys C (tcontent t)" and "ser_u64 C to = Inr b"
    and "tree_pop_first_to T t b = (Inr (Some (k, v)), t')"
  obtains n where "ser_u64 C n = Inr k" and "n < to" and "entry_at C (tcontent t) n \<noteq> None"
    and "\<And>m. entry_at C (tcontent t) m \<noteq> None \<Longrightarrow> n \<le> m"
    and "tcontent t' = (tcontent t)(k := None)"
    and "block_keys C (tcontent t')" and "card (dom (tcontent t')) < card (dom (tcontent t))"
proof -
  note pop = pop_to_some [OF assms(3)]
  with assms(1) obtain n where n: "ser_u64 C n = Inr k" unfolding block_keys_def by blast
  have "n < to" using u64_key_order [OF n assms(2)] pop by simp
  moreover have "entry_at C (tcontent t) n \<noteq> None" using n pop by (simp add: entry_at_def)
  moreover have "n \<le> m" if "entry_at C (tcontent t) m \<noteq> None" for m
    using that pop by (elim entry_key) (metis u64_key_order n not_less)
  moreover have "block_keys C (tcontent t')" "card (dom (tcontent t')) < card (dom (tcontent t))"
    using pop block_keys_remove [OF assms(1), of k] remove_shrinks [of t k v t'] by auto
  ultimately show thesis using that [OF n] pop by blast
qed

lemma pop_to_end:
  assumes "ser_u64 C to = Inr b" and "tree_pop_first_to T t b = (Inr None, t')" and "m < to"
  shows "entry_at C (tcontent t) m = None"
proof (rule ccontr)
  assume "entry_at C (tcontent t) m \<noteq> None"
  then show False
    using pop_to_none [OF assms(2)] assms(1,3) by (elim entry_key) (metis u64_key_order not_less)
qed

lemma pop_from_block:
  assumes "block_keys C (tcontent t)" and "ser_u64 C start = Inr b"
    and "tree_pop_first_from T t b = (Inr (Some (k, v)), t')"
  obtains n where "ser_u64 C n = Inr k" and "start \<le> n" and "entry_at C (tcontent t) n \<noteq> None"
    and "tcontent t' = (tcontent t)(k := None)"
    and "block_keys C (tcontent t')" and "card (dom (tcontent t')) < card (dom (tcontent t))"
proof -
  note pop = pop_from_some [OF assms(3)]
  with assms(1) obtain n where n: "ser_u64 C n = Inr k" unfolding block_keys_def by blast
  have "start \<le> n" using u64_key_order [OF n assms(2)] pop by (simp add: not_less [symmetric])
  moreover have "entry_at C (tcontent t) n \<noteq> None" using n pop by (simp add: entry_at_def)
  moreover have "block_keys C (tcontent t')" "card (dom (tcontent t')) < card (dom (tcontent t))"
    using pop block_keys_remove [OF assms(1), of k] remove_shrinks [of t k v t'] by auto
  ultimately show thesis using that [OF n] pop by blast
qed

lemma pop_from_end:
  assumes "ser_u64 C start = Inr b" and "tree_pop_first_from T t b = (Inr None, t')" and "start \<le> m"
  shows "entry_at C (tcontent t) m = None"
proof (rule ccontr)
  assume "entry_at C (tcontent t) m \<noteq> None"
  then show False
    using pop_from_none [OF assms(2)] assms(1,3) by (elim entry_key) (metis u64_key_order not_less)
qed

lemma entry_at_map_add:
  "entry_at C (ct ++ m) n = (case entry_at C m n of None \<Rightarrow> entry_at C ct n | Some v \<Rightarrow> Some v)"
  by (cases "ser_u64 C n") (simp_all add: entry_at_def map_add_def split: option.split)

lemma entry_at_map_of:
  assumes "map f xs = map Inr kvs" and "\<And>x e. f x = Inr e \<Longrightarrow> ser_u64 C (nb x) = Inr (fst e)"
  shows "entry_at C (map_of kvs) n = map_option (snd \<circ> projr \<circ> f) (find (\<lambda>x. nb x = n) xs)"
  using assms(1)
proof (induction xs arbitrary: kvs)
  case Nil
  then show ?case by (simp add: entry_at_def split: sum.split)
next
  case (Cons x xs)
  then obtain e kvs' where kvs: "kvs = e # kvs'" "f x = Inr e" "map f xs = map Inr kvs'" by (cases kvs) auto
  have "map_of kvs = (map_of kvs')(fst e := Some (snd e))" by (cases e) (simp add: kvs)
  then have "entry_at C (map_of kvs) n = (if n = nb x then Some (snd e) else entry_at C (map_of kvs') n)"
    by (simp only: entry_at_update [OF assms(2) [OF kvs(2)]])
  with Cons.IH [OF kvs(3)] kvs(2) show ?case by auto
qed

lemma entry_at_batch:
  assumes "result_list (map f xs) = Inr kvs" and "\<And>x e. f x = Inr e \<Longrightarrow> ser_u64 C (nb x) = Inr (fst e)"
  shows "entry_at C (ct ++ map_of (rev kvs)) n = (case find (\<lambda>x. nb x = n) (rev xs) of
      None \<Rightarrow> entry_at C ct n | Some x \<Rightarrow> Some (snd (projr (f x))))"
proof -
  from assms(1) have "map f (rev xs) = map Inr (rev kvs)" by (simp add: result_list_Inr rev_map [symmetric])
  from entry_at_map_of [OF this assms(2)] show ?thesis
    by (simp add: entry_at_map_add split: option.split)
qed

lemma block_keys_batch:
  assumes "result_list (map f xs) = Inr kvs" and "\<And>x e. f x = Inr e \<Longrightarrow> ser_u64 C (nb x) = Inr (fst e)"
    and "block_keys C ct"
  shows "block_keys C (ct ++ map_of (rev kvs))"
proof -
  have "\<exists>n. ser_u64 C n = Inr k" if "k \<in> fst ` set kvs" for k
  proof -
    from that obtain e where e: "e \<in> set kvs" "k = fst e" by blast
    then have "Inr e \<in> set (map f xs)" using assms(1) unfolding result_list_Inr by simp
    then obtain x where "f x = Inr e" by auto
    from assms(2) [OF this] e(2) show ?thesis by blast
  qed
  with assms(3) show ?thesis
    unfolding block_keys_def by (auto simp: dom_map_of_conv_image_fst) (metis fst_conv image_eqI)
qed

lemma hash_is_unique: "hash_is C ct n h \<Longrightarrow> hash_is C ct n h' \<Longrightarrow> h = h'"
  by (auto simp: hash_is_def dest: hash_injective split: option.splits)

end

locale index_trees_available = index_trees T C tcontent
  for T :: "('t, 'k::linorder, 'v, 'e) tree_ops" and C :: "('k, 'v, 'e) index_codec" and tcontent +
  assumes get_returns: "\<exists>v. tree_get T t k = Inr v"
    and insert_returns: "\<exists>v t'. tree_insert T t k w = (Inr v, t')"
    and remove_returns: "\<exists>v t'. tree_remove T t k = (Inr v, t')"
    and pop_to_returns: "\<exists>v t'. tree_pop_first_to T t k = (Inr v, t')"
    and pop_from_returns: "\<exists>v t'. tree_pop_first_from T t k = (Inr v, t')"
    and batch_returns: "\<exists>u t'. tree_apply_batch T t kvs = (Inr u, t')"
    and ser_u256_returns: "\<exists>k. ser_u256 C n = Inr k"
    and ser_b256_returns: "\<exists>v. ser_b256 C h = Inr v"
    and ser_mods_returns: "\<exists>v. ser_mods C ms = Inr v"
    and ser_block_num_hash_returns: "\<exists>v. ser_block_num_hash C b = Inr v"

section \<open>Trees as association lists\<close>

text \<open>The instance the contract is checked on: a tree is an association list, keys are the block
  numbers themselves, values keep what was serialized.\<close>

datatype index_value = HashValue b256 | ModsValue "pending_modification list" | NumHashValue block_num_hash

type_synonym list_tree = "(u256 \<times> index_value) list"

definition list_remove :: "u256 \<Rightarrow> list_tree \<Rightarrow> list_tree" where
  "list_remove k t = filter (\<lambda>e. fst e \<noteq> k) t"

definition list_pop_first :: "(u256 \<Rightarrow> bool) \<Rightarrow> list_tree \<Rightarrow> (u256 \<times> index_value) option \<times> list_tree" where
  "list_pop_first P t = (case filter P (map fst t) of
       [] \<Rightarrow> (None, t)
     | k # ks \<Rightarrow> (let m = fold min ks k in (map_option (Pair m) (map_of t m), list_remove m t)))"

definition list_tree_ops :: "(list_tree, u256, index_value, unit) tree_ops" where
  "list_tree_ops =
     \<lparr>tree_get = \<lambda>t k. Inr (map_of t k),
      tree_insert = \<lambda>t k v. (Inr (map_of t k), (k, v) # list_remove k t),
      tree_remove = \<lambda>t k. (Inr (map_of t k), list_remove k t),
      tree_pop_first_to = \<lambda>t b. map_prod Inr id (list_pop_first (\<lambda>k. k < b) t),
      tree_pop_first_from = \<lambda>t b. map_prod Inr id (list_pop_first (\<lambda>k. b \<le> k) t),
      tree_apply_batch = \<lambda>t kvs. (Inr (), fold (\<lambda>(k, v) t. (k, v) # list_remove k t) kvs t)\<rparr>"

definition plain_codec :: "(u256, index_value, unit) index_codec" where
  "plain_codec =
     \<lparr>ser_u256 = Inr, ser_b256 = \<lambda>h. Inr (HashValue h), ser_mods = \<lambda>ms. Inr (ModsValue ms),
      de_mods = \<lambda>v. (case v of ModsValue ms \<Rightarrow> Inr ms | _ \<Rightarrow> Inl ()),
      ser_block_num_hash = \<lambda>b. Inr (NumHashValue b),
      de_block_num_hash = \<lambda>v. (case v of NumHashValue b \<Rightarrow> Inr b | _ \<Rightarrow> Inl ()), empty_key = 0\<rparr>"

lemma map_of_list_remove: "map_of (list_remove k t) = (map_of t)(k := None)"
  by (induction t) (auto simp: list_remove_def fun_eq_iff)

lemma fold_min: "fold min ks k = Min (insert k (set ks))" for k :: "'a::linorder"
  by (simp add: Min.set_eq_fold [symmetric])

lemma list_pop_first_None:
  "list_pop_first P t = (None, t') \<Longrightarrow> t' = t \<and> (\<forall>k \<in> dom (map_of t). \<not> P k)"
proof (cases "filter P (map fst t)")
  case Nil
  assume "list_pop_first P t = (None, t')"
  with Nil show ?thesis
    by (auto simp: list_pop_first_def dom_map_of_conv_image_fst filter_empty_conv)
next
  case (Cons k ks)
  assume *: "list_pop_first P t = (None, t')"
  have "fold min ks k \<in> insert k (set ks)" unfolding fold_min by (rule Min_in) auto
  moreover have "insert k (set ks) \<subseteq> fst ` set t"
    using arg_cong [OF Cons, of set] by auto
  ultimately have "fold min ks k \<in> fst ` set t" by blast
  then have "map_of t (fold min ks k) \<noteq> None" by (simp add: map_of_eq_None_iff)
  with * Cons show ?thesis by (auto simp: list_pop_first_def Let_def)
qed

lemma list_pop_first_Some:
  assumes "list_pop_first P t = (Some (k, v), t')"
  shows "map_of t k = Some v \<and> P k \<and> (\<forall>k' \<in> dom (map_of t). P k' \<longrightarrow> k \<le> k') \<and> map_of t' = (map_of t)(k := None)"
proof (cases "filter P (map fst t)")
  case Nil
  with assms show ?thesis by (simp add: list_pop_first_def)
next
  case (Cons j ks)
  from assms Cons have k: "k = Min (insert j (set ks))" "map_of t k = Some v" "t' = list_remove k t"
    by (auto simp: list_pop_first_def Let_def fold_min)
  have S: "insert j (set ks) = {x \<in> fst ` set t. P x}"
    using arg_cong [OF Cons, of set] by auto
  have "k \<in> insert j (set ks)" unfolding k(1) by (rule Min_in) auto
  moreover have "k \<le> x" if "x \<in> insert j (set ks)" for x
    unfolding k(1) using that by (intro Min_le) auto
  ultimately show ?thesis
    using k(2,3) unfolding S by (auto simp: map_of_list_remove dom_map_of_conv_image_fst)
qed

lemma map_of_list_batch:
  "map_of (fold (\<lambda>(k, v) t. (k, v) # list_remove k t) kvs t) = map_of t ++ map_of (rev kvs)"
proof (induction kvs arbitrary: t)
  case (Cons e kvs)
  have "map_of ((case e of (k, v) \<Rightarrow> \<lambda>t. (k, v) # list_remove k t) t) = (map_of t)(fst e \<mapsto> snd e)"
    by (cases e) (simp add: map_of_list_remove)
  with Cons show ?case by (cases e) (auto simp: map_add_def fun_eq_iff split: option.splits)
qed simp

interpretation list_trees: index_trees_available list_tree_ops plain_codec map_of
proof unfold_locales
  fix t b k v t'
  show "tree_pop_first_to list_tree_ops t b = (Inr None, t') \<Longrightarrow>
      map_of t' = map_of t \<and> (\<forall>k \<in> dom (map_of t). b \<le> k)"
    using list_pop_first_None [of "\<lambda>k. k < b" t t']
    by (auto simp: list_tree_ops_def map_prod_def not_less split: prod.splits)
  show "tree_pop_first_from list_tree_ops t b = (Inr None, t') \<Longrightarrow>
      map_of t' = map_of t \<and> (\<forall>k \<in> dom (map_of t). k < b)"
    using list_pop_first_None [of "\<lambda>k. b \<le> k" t t']
    by (auto simp: list_tree_ops_def map_prod_def not_le split: prod.splits)
  show "tree_pop_first_from list_tree_ops t b = (Inr (Some (k, v)), t') \<Longrightarrow>
      map_of t k = Some v \<and> b \<le> k \<and> (\<forall>k' \<in> dom (map_of t). b \<le> k' \<longrightarrow> k \<le> k') \<and>
      map_of t' = (map_of t)(k := None)"
    using list_pop_first_Some [of "\<lambda>k. b \<le> k" t k v t'] by (auto simp: list_tree_ops_def map_prod_def split: prod.splits)
  show "map_of t k = Some v \<and> k < b \<and> (\<forall>k' \<in> dom (map_of t). k \<le> k') \<and> map_of t' = (map_of t)(k := None)"
    if "tree_pop_first_to list_tree_ops t b = (Inr (Some (k, v)), t')"
  proof -
    from that have "list_pop_first (\<lambda>k. k < b) t = (Some (k, v), t')"
      by (auto simp: list_tree_ops_def map_prod_def split: prod.splits)
    from list_pop_first_Some [OF this] show ?thesis by (metis le_cases less_imp_le order_le_less_trans not_le)
  qed
qed (auto simp: list_tree_ops_def plain_codec_def map_of_list_remove map_of_list_batch finite_dom_map_of
      map_prod_def split: index_value.splits prod.splits)

end
