(* ===== verification/Extractor.thy ===== *)
theory Extractor
  imports BuildEvm AssertionStore
begin

text \<open>
  \<^verbatim>\<open>src/store/assertion_contract_extractor.rs\<close> and \<^verbatim>\<open>AssertionState::new_active\<close>: from the deployment code
  of an assertion to its contract and its triggers.  The code is deployed in an empty database,
  then its \<^verbatim>\<open>triggers()\<close> function is called with the trigger recorder watching.  The in-memory
  database, the EVM runs, keccak and the \<^verbatim>\<open>Default\<close> values are the parameter \<open>extract_env\<close>.
\<close>

section \<open>Definitions\<close>

datatype fn_selector_extractor_error =
    TriggersCallError string
  | TriggersCallFailed result_and_state
  | AssertionContractDeployError string
  | AssertionContractDeployFailed result_and_state
  | NoTriggersRecorded
  | AssertionContractNotFound
  | AssertionContractNoCode

definition DEPLOYMENT_GAS_LIMIT :: u64 where "DEPLOYMENT_GAS_LIMIT = 20000000"

record ('m, 'x, 'h) extract_env =
  xt_keccak256 :: "bytes \<Rightarrow> b256"
  xt_instructions :: "('x, 'h) instructions"
  xt_transact_deploy :: "(unit, 'm, 'm, 'x, 'h) evm \<Rightarrow> (string, result_and_state) result \<times> 'm"
  xt_transact_triggers :: "(trigger_recorder, 'm, 'm, 'x, 'h) evm \<Rightarrow>
    (string, result_and_state) result \<times> trigger_recorder"
  xt_db_default :: 'm
  xt_db_commit :: "'m \<Rightarrow> evm_state \<Rightarrow> 'm"
  xt_db_insert_account_info :: "address \<Rightarrow> account_info \<Rightarrow> 'm \<Rightarrow> 'm"
  xt_block_env_default :: block_env
  xt_tx_env_default :: tx_env
  xt_account_info_default :: account_info
  xt_triggers_SELECTOR :: bytes
  xt_recorder_abi :: itrigger_recorder_abi
  xt_encode_error :: "string \<Rightarrow> bytes"
  xt_optimism :: bool

definition no_op_inspector :: "(unit, 'c) inspector" where
  "no_op_inspector =
     \<lparr>insp_initialize_interp = \<lambda>i c. (i, c), insp_step = \<lambda>i c. (i, c), insp_step_end = \<lambda>i c. (i, c),
      insp_call = \<lambda>i c inputs. (None, i, c), insp_call_end = \<lambda>i c inputs out. (out, i, c),
      insp_create = \<lambda>i c inputs. (None, i, c), insp_create_end = \<lambda>i c inputs out. (out, i, c),
      insp_selfdestruct = \<lambda>i c ct t v. (i, c)\<rparr>"

definition extraction_tx_env :: "('m, 'x, 'h) extract_env \<Rightarrow> tx_kind \<Rightarrow> bytes \<Rightarrow> u64 \<Rightarrow> tx_env" where
  "extraction_tx_env xt kind data gas_limit = (xt_tx_env_default xt)
     \<lparr>tx_transact_to := kind, tx_caller := CALLER, tx_data := data, tx_gas_limit := gas_limit,
      tx_optimism := (if xt_optimism xt then create_optimism_fields else tx_optimism (xt_tx_env_default xt))\<rparr>"

definition deploy_evm :: "('m, 'x, 'h) extract_env \<Rightarrow> bytes \<Rightarrow> executor_config \<Rightarrow>
    (unit, 'm, 'm, 'x, 'h) evm" where
  "deploy_evm xt assertion_code config =
     new_evm (xt_optimism xt) (xt_instructions xt) no_op_inspector
       (extraction_tx_env xt TxCreate assertion_code DEPLOYMENT_GAS_LIMIT) (xt_block_env_default xt)
       (cfg_chain_id config) (cfg_spec_id config) (xt_db_default xt) ()"

definition triggers_evm :: "('m, 'x, 'h) extract_env \<Rightarrow> executor_config \<Rightarrow> result_and_state \<Rightarrow> 'm \<Rightarrow>
    (trigger_recorder, 'm, 'm, 'x, 'h) evm" where
  "triggers_evm xt config ras db =
     new_evm (xt_optimism xt) (xt_instructions xt)
       (trigger_recorder_inspector (xt_recorder_abi xt) (xt_encode_error xt))
       (extraction_tx_env xt (TxCall ASSERTION_CONTRACT) (xt_triggers_SELECTOR xt)
          (DEPLOYMENT_GAS_LIMIT - er_gas_used (ras_result ras)))
       (xt_block_env_default xt) (cfg_chain_id config) (cfg_spec_id config) db \<lparr>recorded_triggers = []\<rparr>"

definition extract_assertion_contract :: "('m, 'x, 'h) extract_env \<Rightarrow> bytes \<Rightarrow> executor_config \<Rightarrow>
    (fn_selector_extractor_error, assertion_contract \<times> trigger_recorder) result" where
  "extract_assertion_contract xt assertion_code config =
     (let assertion_id = xt_keccak256 xt assertion_code;
          (deploy, db) = xt_transact_deploy xt (deploy_evm xt assertion_code config)
      in result_bind (map_err AssertionContractDeployError deploy) (\<lambda>ras.
         if \<not> er_is_success (ras_result ras) then Inl (AssertionContractDeployFailed ras)
         else result_bind (ok_or AssertionContractNotFound (hm_get (ras_state ras) ASSERTION_CONTRACT)) (\<lambda>init_account.
           let db1 = xt_db_commit xt db (ras_state ras);
               db2 = insert_trigger_recorder_account (xt_db_insert_account_info xt) (xt_account_info_default xt) db1;
               (trigger_call, recorder) = xt_transact_triggers xt (triggers_evm xt config ras db2)
           in result_bind (map_err TriggersCallError trigger_call) (\<lambda>tras.
              if \<not> er_is_success (ras_result tras) then Inl (TriggersCallFailed tras)
              else if recorded_triggers recorder = [] then Inl NoTriggersRecorded
              else result_bind (ok_or AssertionContractNoCode (info_code (acc_info init_account))) (\<lambda>code.
                Inr (\<lparr>ac_id = assertion_id, ac_deployed_code = code,
                      ac_code_hash = info_code_hash (acc_info init_account),
                      ac_storage = acc_storage init_account, ac_account_status = acc_status init_account\<rparr>,
                     recorder))))))"

definition new_active :: "('m, 'x, 'h) extract_env \<Rightarrow> bytes \<Rightarrow> executor_config \<Rightarrow>
    (fn_selector_extractor_error, assertion_state) result" where
  "new_active xt bytecode config =
     result_bind (extract_assertion_contract xt bytecode config) (\<lambda>(contract, recorder).
       Inr \<lparr>active_at_block = 0, inactive_at_block = None, as_assertion_contract = contract,
            as_trigger_recorder = recorder\<rparr>)"

text \<open>The EVM the \<^verbatim>\<open>triggers()\<close> call runs in, over what the deployment left in the database.\<close>

definition triggers_run :: "('m, 'x, 'h) extract_env \<Rightarrow> bytes \<Rightarrow> executor_config \<Rightarrow> result_and_state \<Rightarrow>
    (trigger_recorder, 'm, 'm, 'x, 'h) evm" where
  "triggers_run xt code config ras = triggers_evm xt config ras
     (insert_trigger_recorder_account (xt_db_insert_account_info xt) (xt_account_info_default xt)
       (xt_db_commit xt (snd (xt_transact_deploy xt (deploy_evm xt code config))) (ras_state ras)))"

text \<open>What revm documents of a run with an inspector: it calls the hooks in some order, \<open>trace ev\<close> for the
  run of \<open>ev\<close>, and the inspector's state afterwards is what those calls leave.\<close>

definition runs_hooks :: "('m, 'x, 'h) extract_env \<Rightarrow>
    ((trigger_recorder, 'm, 'm, 'x, 'h) evm \<Rightarrow> insp_event list) \<Rightarrow> bool" where
  "runs_hooks xt trace \<longleftrightarrow> (\<forall>ev. \<exists>c. snd (xt_transact_triggers xt ev) =
     fst (run_events (evm_hooks ev) (trace ev) (evm_external ev, c)))"

section \<open>A concrete environment\<close>

definition sample_recorder_abi :: itrigger_recorder_abi where
  "sample_recorder_abi =
     \<lparr>registerCallTrigger_0_SELECTOR = 1, registerCallTrigger_1_SELECTOR = 2,
      registerStorageChangeTrigger_0_SELECTOR = 3, registerStorageChangeTrigger_1_SELECTOR = 4,
      registerBalanceChangeTrigger_SELECTOR = 5,
      registerCallTrigger_0_decode = \<lambda>inp. Inr (selector_from_slice (take 4 (drop 4 inp))),
      registerCallTrigger_1_decode = \<lambda>inp. Inl ''short'',
      registerStorageChangeTrigger_0_decode = \<lambda>inp. Inl ''short'',
      registerStorageChangeTrigger_1_decode = \<lambda>inp. Inl ''short'',
      registerBalanceChangeTrigger_decode = \<lambda>inp. Inl ''short''\<rparr>"

definition sample_extract_env :: "(unit, unit, nat) extract_env" where
  "sample_extract_env =
     \<lparr>xt_keccak256 = \<lambda>bs. of_nat (length bs), xt_instructions = sample_instructions,
      xt_transact_deploy = \<lambda>ev. (Inr \<lparr>ras_result = EvmSuccess 100 [] [],
         ras_state = [(ASSERTION_CONTRACT, \<lparr>acc_info = \<lparr>info_balance = 0, info_nonce = 1, info_code_hash = 5,
            info_code = Some [1]\<rparr>, acc_storage = [], acc_status = account_status_touched\<rparr>)]\<rparr>, ()),
      xt_transact_triggers = \<lambda>ev. (Inr \<lparr>ras_result = EvmSuccess 10 [] [], ras_state = []\<rparr>,
         fst (run_events (evm_hooks ev) [EvCall (sample_call TRIGGER_RECORDER [0, 0, 0, 1, 0, 0, 0, 9])]
           (evm_external ev, ()))),
      xt_db_default = (), xt_db_commit = \<lambda>_ _. (), xt_db_insert_account_info = \<lambda>_ _ _. (),
      xt_block_env_default = \<lparr>be_number = 0, be_basefee = 0, be_coinbase = 0, be_timestamp = 0, be_gas_limit = 0\<rparr>,
      xt_tx_env_default = \<lparr>tx_caller = 0, tx_gas_limit = 0, tx_gas_price = 0, tx_transact_to = TxCreate, tx_value = 0,
         tx_data = [], tx_nonce = None, tx_chain_id = None, tx_access_list = [], tx_gas_priority_fee = None,
         tx_blob_hashes = [], tx_max_fee_per_blob_gas = None, tx_authorization_list = None, tx_optimism = None\<rparr>,
      xt_account_info_default = \<lparr>info_balance = 0, info_nonce = 0, info_code_hash = 0, info_code = None\<rparr>,
      xt_triggers_SELECTOR = [1, 2, 3, 4], xt_recorder_abi = sample_recorder_abi, xt_encode_error = \<lambda>_. [],
      xt_optimism = False\<rparr>"

section \<open>Lemmas\<close>

text \<open>What every successful extraction went through.\<close>

lemma extract_success:
  assumes "extract_assertion_contract xt code config = Inr (ac, tr)"
  shows "\<exists>ras acct tras.
    fst (xt_transact_deploy xt (deploy_evm xt code config)) = Inr ras \<and> er_is_success (ras_result ras) \<and>
    hm_get (ras_state ras) ASSERTION_CONTRACT = Some acct \<and>
    xt_transact_triggers xt (triggers_run xt code config ras) = (Inr tras, tr) \<and> er_is_success (ras_result tras) \<and>
    recorded_triggers tr \<noteq> [] \<and> info_code (acc_info acct) = Some (ac_deployed_code ac) \<and>
    ac = \<lparr>ac_id = xt_keccak256 xt code, ac_deployed_code = ac_deployed_code ac,
       ac_code_hash = info_code_hash (acc_info acct), ac_storage = acc_storage acct, ac_account_status = acc_status acct\<rparr>"
proof -
  obtain d db where d: "xt_transact_deploy xt (deploy_evm xt code config) = (d, db)" by fastforce
  from assms obtain ras acct where ras: "d = Inr ras" "er_is_success (ras_result ras)"
    and acct: "hm_get (ras_state ras) ASSERTION_CONTRACT = Some acct"
    by (auto simp: extract_assertion_contract_def d result_eqs split: if_splits)
  obtain t rec where t: "xt_transact_triggers xt (triggers_run xt code config ras) = (t, rec)" by fastforce
  then have t': "xt_transact_triggers xt (triggers_evm xt config ras (insert_trigger_recorder_account
      (xt_db_insert_account_info xt) (xt_account_info_default xt) (xt_db_commit xt db (ras_state ras)))) = (t, rec)"
    by (simp add: triggers_run_def d)
  from assms show ?thesis
    by (intro exI [of _ ras] exI [of _ acct] exI [of _ "projr t"])
      (auto simp: extract_assertion_contract_def d ras acct t t' result_eqs split: if_splits)
qed

section \<open>Properties\<close>

text \<open>C39. A successful extraction is what the deployment left: the deployment and the \<^verbatim>\<open>triggers()\<close>
  call both succeeded, the contract's id is the hash of the deployment code, its code, code hash,
  storage and status are those of the account deployed at the assertion address, and its triggers
  are exactly the registrations made by the calls of the \<^verbatim>\<open>triggers()\<close> run, which starts from the committed
  deployment, of which there is at least one entry.\<close>

theorem extract_assertion_contract_sound:
  fixes xt :: "('m, 'x, 'h) extract_env"
  assumes "extract_assertion_contract xt code config = Inr (ac, tr)" and "runs_hooks xt trace"
  shows "\<exists>ras acct tras. fst (xt_transact_deploy xt (deploy_evm xt code config)) = Inr ras \<and>
    er_is_success (ras_result ras) \<and> hm_get (ras_state ras) ASSERTION_CONTRACT = Some acct \<and>
    ac_id ac = xt_keccak256 xt code \<and> info_code (acc_info acct) = Some (ac_deployed_code ac) \<and>
    ac_storage ac = acc_storage acct \<and> ac_account_status ac = acc_status acct \<and>
    ac_code_hash ac = info_code_hash (acc_info acct) \<and>
    fst (xt_transact_triggers xt (triggers_run xt code config ras)) = Inr tras \<and> er_is_success (ras_result tras) \<and>
    recorded_triggers tr \<noteq> [] \<and>
    (\<forall>t. registered tr t = {s. \<exists>inputs \<in> set (event_calls (trace (triggers_run xt code config ras))).
       registration (xt_recorder_abi xt) inputs = Some (t, s)})"
proof -
  from extract_success [OF assms(1)] obtain ras acct tras where
    1: "fst (xt_transact_deploy xt (deploy_evm xt code config)) = Inr ras" "er_is_success (ras_result ras)"
      "hm_get (ras_state ras) ASSERTION_CONTRACT = Some acct" "recorded_triggers tr \<noteq> []"
      "info_code (acc_info acct) = Some (ac_deployed_code ac)"
      "ac = \<lparr>ac_id = xt_keccak256 xt code, ac_deployed_code = ac_deployed_code ac,
         ac_code_hash = info_code_hash (acc_info acct), ac_storage = acc_storage acct,
         ac_account_status = acc_status acct\<rparr>"
    and run: "xt_transact_triggers xt (triggers_run xt code config ras) = (Inr tras, tr)"
      "er_is_success (ras_result tras)" by blast
  let ?evs = "trace (triggers_run xt code config ras)"
  from assms(2) [unfolded runs_hooks_def, rule_format, of "triggers_run xt code config ras"] run(1) obtain c :: 'm where
    tr: "tr = fst (run_events (trigger_recorder_inspector (xt_recorder_abi xt) (xt_encode_error xt)) ?evs
      (\<lparr>recorded_triggers = []\<rparr>, c))"
    by (auto simp: triggers_run_def triggers_evm_def new_evm_def new_ctx_and_handler_cfg_def)
  have "registered tr t = {s. \<exists>inputs \<in> set (event_calls ?evs). registration (xt_recorder_abi xt) inputs = Some (t, s)}" for t
    unfolding tr trec.run_events_fold fst_conv registered_fold by (simp add: registered_def)
  moreover have "ac_id ac = xt_keccak256 xt code" "ac_storage ac = acc_storage acct"
    "ac_account_status ac = acc_status acct" "ac_code_hash ac = info_code_hash (acc_info acct)"
    by (subst 1(6), simp)+
  ultimately show ?thesis using 1(1-5) run by fastforce
qed

text \<open>A state made active from its code is active at every block but the last representable
  one, and it is refused exactly when the extraction is.\<close>

lemma new_active_always_active:
  "(case new_active xt code config of
      Inl e \<Rightarrow> extract_assertion_contract xt code config = Inl e
    | Inr st \<Rightarrow> extract_assertion_contract xt code config =
        Inr (as_assertion_contract st, as_trigger_recorder st) \<and> (is_active b st \<longleftrightarrow> b \<noteq> u64_max))"
  by (auto simp: new_active_def is_active_iff split: sum.splits result_bind_splits)

text \<open>The sample run registers function 9 for all calls, and nothing else.\<close>

theorem extract_assertion_contract_sound_witness:
  "\<exists>ac tr. extract_assertion_contract sample_extract_env [1, 2, 3] (executor_config_default 17) = Inr (ac, tr) \<and>
    ac_id ac = 3 \<and> registered tr AllCalls = {9}"
proof -
  let ?call = "sample_call TRIGGER_RECORDER [0, 0, 0, 1, 0, 0, 0, 9]"
  have hooks: "runs_hooks sample_extract_env (\<lambda>_. [EvCall ?call])"
    unfolding runs_hooks_def sample_extract_env_def by (auto intro!: exI)
  have "snd (trigger_recorder_call sample_recorder_abi enc \<lparr>recorded_triggers = []\<rparr> ?call) =
      \<lparr>recorded_triggers = [(AllCalls, [9])]\<rparr>" for enc
    by (simp add: trigger_recorder_call_def record_trigger_def sample_call_def sample_recorder_abi_def
        input_selector_def selector_from_slice_def add_trigger_def hm_entry_def hm_insert_def hs_insert_def)
  then obtain ac tr where ex: "extract_assertion_contract sample_extract_env [1, 2, 3] (executor_config_default 17) =
      Inr (ac, tr)"
    by (simp add: extract_assertion_contract_def sample_extract_env_def triggers_evm_def new_evm_def new_ctx_and_handler_cfg_def
        trec.run_events_fold)
  have reg: "registration (xt_recorder_abi sample_extract_env) ?call = Some (AllCalls, 9)"
    by (simp add: sample_extract_env_def registration_def registration_table_def sample_call_def sample_recorder_abi_def
        input_selector_def selector_from_slice_def hm_get_def)
  from extract_assertion_contract_sound [OF ex hooks] have "ac_id ac = xt_keccak256 sample_extract_env [1, 2, 3]"
    and "registered tr AllCalls = {s. registration (xt_recorder_abi sample_extract_env) ?call = Some (AllCalls, s)}"
    by auto
  with ex reg show ?thesis by (simp add: sample_extract_env_def)
qed

end
