(* ===== verification/Indexer.thy ===== *)
theory Indexer
  imports Trees Extractor
begin

text \<open>
  \<^verbatim>\<open>src/store/indexer.rs\<close>: from the events of the state oracle contract to the assertion store.
  Blocks are indexed in ranges; the modifications found in a block wait in a tree until the block is
  below the awaited tag (latest, safe or finalized) and are then moved to the store.  A reorg is
  undone down to the common ancestor before the new blocks are indexed.

  The node answers requests through \<open>rpc\<close>; every handler call, and every range of a sync, may see a
  different node state (\<open>node k\<close>).  The DA service, the event ABI, sled, bincode and the EVM of
  the extractor are the parameter \<open>indexer_env\<close>; the errors of all foreign crates share one type
  variable.  Block numbers are 64-bit words and wrap, as in a release build.
\<close>

section \<open>Data\<close>

record assertion_added =
  added_contractAddress :: address
  added_assertionId :: b256
  added_activeAtBlock :: u256

record assertion_removed =
  removed_contractAddress :: address
  removed_assertionId :: b256
  removed_activeAtBlock :: u256

record 'e state_oracle_abi =
  added_SIGNATURE_HASH :: b256
  added_decode_topics :: "b256 list \<Rightarrow> ('e, unit) result"
  added_decode_data :: "bytes \<Rightarrow> ('e, assertion_added) result"
  removed_SIGNATURE_HASH :: b256
  removed_decode_topics :: "b256 list \<Rightarrow> ('e, unit) result"
  removed_decode_data :: "bytes \<Rightarrow> ('e, assertion_removed) result"

datatype block_tag = BlockTagLatest | BlockTagFinalized | BlockTagSafe

primrec block_tag_into :: "block_tag \<Rightarrow> block_number_or_tag" where
  "block_tag_into BlockTagLatest = TagLatest"
| "block_tag_into BlockTagFinalized = TagFinalized"
| "block_tag_into BlockTagSafe = TagSafe"

definition MAX_BLOCKS_PER_CALL :: u64 where "MAX_BLOCKS_PER_CALL = 50000"

datatype 'e indexer_error =
    TransportError 'e
  | IxSledError 'e
  | IxBincodeError 'e
  | EventDecodeError 'e
  | BlockNumberMissing
  | LogIndexMissing
  | IxBlockNumberExceedsU64
  | DaClientError 'e
  | DaBytecodeDecodingFailed 'e
  | BlockStreamError 'e
  | ParentBlockNotFound
  | BlockHashMissing
  | NoCommonAncestor
  | ExecutionLogsRxNone
  | CheckIfReorgedError "'e check_if_reorged_error"
  | AssertionStoreError "('e, 'e) assertion_store_error"
  | StoreNotSynced

record da_fetch_response =
  da_bytecode :: bytes
  da_encoded_constructor_args :: bytes

record ('t, 'k, 'v, 's, 'w, 'e, 'm, 'x, 'h) indexer_env =
  env_trees :: "('t, 'k, 'v, 'e) tree_ops"
  env_codec :: "('k, 'v, 'e) index_codec"
  env_events :: "'e state_oracle_abi"
  env_fetch_assertion :: "b256 \<Rightarrow> ('e, da_fetch_response) result"
  env_extract :: "('m, 'x, 'h) extract_env"
  env_store_ops :: "('s, 'w, 'e) sled_ops"
  env_store_bincode :: "('w, 'e) bincode"
  env_store_interference :: "address \<Rightarrow> nat \<Rightarrow> 's \<Rightarrow> 's"
  env_store_iter :: "(address, pending_modification list) hash_map \<Rightarrow> (address \<times> pending_modification list) list"

record ('t, 's) indexer =
  block_hash_tree :: 't
  latest_block_tree :: 't
  pending_modifications_tree :: 't
  ix_store :: 's
  state_oracle :: address
  ix_executor_config :: executor_config
  is_synced :: bool
  await_tag :: block_tag

record ('t, 's) indexer_cfg =
  icfg_state_oracle :: address
  icfg_executor_config :: executor_config
  icfg_store :: 's
  icfg_block_hash_tree :: 't
  icfg_latest_block_tree :: 't
  icfg_pending_modifications_tree :: 't
  icfg_await_tag :: block_tag

definition indexer_new :: "('t, 's) indexer_cfg \<Rightarrow> ('t, 's) indexer" where
  "indexer_new cfg =
     \<lparr>block_hash_tree = icfg_block_hash_tree cfg, latest_block_tree = icfg_latest_block_tree cfg,
      pending_modifications_tree = icfg_pending_modifications_tree cfg, ix_store = icfg_store cfg,
      state_oracle = icfg_state_oracle cfg, ix_executor_config = icfg_executor_config cfg,
      is_synced = False, await_tag = icfg_await_tag cfg\<rparr>"

section \<open>Steps\<close>

text \<open>A step ends with a result and the state it leaves, also when it fails; a step that never ends
  is \<^term>\<open>None\<close>.\<close>

type_synonym ('e, 'a, 's) step_result = "(('e indexer_error, 'a) result \<times> 's) option"

definition ix_bind :: "('e, 'a, 's) step_result \<Rightarrow> ('a \<Rightarrow> 's \<Rightarrow> ('e, 'b, 's) step_result) \<Rightarrow>
    ('e, 'b, 's) step_result" where
  "ix_bind m f = (case m of
       None \<Rightarrow> None
     | Some (Inl e, s) \<Rightarrow> Some (Inl e, s)
     | Some (Inr a, s) \<Rightarrow> f a s)"

definition ix_result :: "('e indexer_error, 'a) result \<Rightarrow> 's \<Rightarrow> ('e, 'a, 's) step_result" where
  "ix_result r s = Some (r, s)"

section \<open>The trees\<close>

definition insert_last_indexed_block_num_hash ::
  "('t, 'k, 'v, 's, 'w, 'e, 'm, 'x, 'h) indexer_env \<Rightarrow> block_num_hash \<Rightarrow> ('t, 's) indexer \<Rightarrow>
   ('e, unit, ('t, 's) indexer) step_result" where
  "insert_last_indexed_block_num_hash env block_num_hash ix =
     (case ser_block_num_hash (env_codec env) block_num_hash of
        Inl e \<Rightarrow> Some (Inl (IxBincodeError e), ix)
      | Inr v \<Rightarrow>
          (let (r, t) = tree_insert (env_trees env) (latest_block_tree ix) (empty_key (env_codec env)) v;
               ix' = ix\<lparr>latest_block_tree := t\<rparr>
           in case r of
                Inl e \<Rightarrow> Some (Inl (IxSledError e), ix')
              | Inr _ \<Rightarrow> Some (Inr (), ix')))"

definition get_last_indexed_block_num_hash ::
  "('t, 'k, 'v, 's, 'w, 'e, 'm, 'x, 'h) indexer_env \<Rightarrow> ('t, 's) indexer \<Rightarrow>
   ('e indexer_error, block_num_hash option) result" where
  "get_last_indexed_block_num_hash env ix =
     result_bind (map_err IxSledError (tree_get (env_trees env) (latest_block_tree ix) (empty_key (env_codec env))))
       (\<lambda>last_indexed. case last_indexed of
            None \<Rightarrow> Inr None
          | Some v \<Rightarrow> result_bind (map_err IxBincodeError (de_block_num_hash (env_codec env) v)) (\<lambda>b. Inr (Some b)))"

definition block_num_hash_entry :: "('k, 'v, 'e) index_codec \<Rightarrow> block_num_hash \<Rightarrow>
    ('e indexer_error, 'k \<times> 'v) result" where
  "block_num_hash_entry codec b =
     result_bind (map_err IxBincodeError (ser_u64 codec (bnh_number b))) (\<lambda>key.
     result_bind (map_err IxBincodeError (ser_b256 codec (bnh_hash b))) (\<lambda>value.
     Inr (key, value)))"

definition write_block_num_hash_batch ::
  "('t, 'k, 'v, 's, 'w, 'e, 'm, 'x, 'h) indexer_env \<Rightarrow> block_num_hash list \<Rightarrow> ('t, 's) indexer \<Rightarrow>
   ('e, unit, ('t, 's) indexer) step_result" where
  "write_block_num_hash_batch env block_num_hashes ix =
     (case result_list (map (block_num_hash_entry (env_codec env)) block_num_hashes) of
        Inl e \<Rightarrow> Some (Inl e, ix)
      | Inr batch \<Rightarrow>
          (let (r, t) = tree_apply_batch (env_trees env) (block_hash_tree ix) batch
           in Some (map_err IxSledError r, ix\<lparr>block_hash_tree := t\<rparr>)))"

partial_function (option) prune_to_loop ::
  "('t, 'k, 'v, 's, 'w, 'e, 'm, 'x, 'h) indexer_env \<Rightarrow> 'k \<Rightarrow> pending_modification list \<Rightarrow> ('t, 's) indexer \<Rightarrow>
   ('e, pending_modification list, ('t, 's) indexer) step_result" where
  "prune_to_loop env ser_to mods ix =
     (case tree_pop_first_to (env_trees env) (block_hash_tree ix) ser_to of
        (Inl e, t) \<Rightarrow> Some (Inl (IxSledError e), ix\<lparr>block_hash_tree := t\<rparr>)
      | (Inr None, t) \<Rightarrow> Some (Inr mods, ix\<lparr>block_hash_tree := t\<rparr>)
      | (Inr (Some (key, _)), t) \<Rightarrow>
          (case tree_remove (env_trees env) (pending_modifications_tree ix) key of
             (Inl e, t') \<Rightarrow> Some (Inl (IxSledError e), ix\<lparr>block_hash_tree := t, pending_modifications_tree := t'\<rparr>)
           | (Inr None, t') \<Rightarrow>
               prune_to_loop env ser_to mods (ix\<lparr>block_hash_tree := t, pending_modifications_tree := t'\<rparr>)
           | (Inr (Some v), t') \<Rightarrow>
               (case de_mods (env_codec env) v of
                  Inl e \<Rightarrow> Some (Inl (IxBincodeError e), ix\<lparr>block_hash_tree := t, pending_modifications_tree := t'\<rparr>)
                | Inr pending_mods \<Rightarrow>
                    prune_to_loop env ser_to (mods @ pending_mods)
                      (ix\<lparr>block_hash_tree := t, pending_modifications_tree := t'\<rparr>))))"

definition prune_to ::
  "('t, 'k, 'v, 's, 'w, 'e, 'm, 'x, 'h) indexer_env \<Rightarrow> u64 \<Rightarrow> ('t, 's) indexer \<Rightarrow>
   ('e, pending_modification list, ('t, 's) indexer) step_result" where
  "prune_to env to ix =
     (case ser_u64 (env_codec env) to of
        Inl e \<Rightarrow> Some (Inl (IxBincodeError e), ix)
      | Inr ser_to \<Rightarrow> prune_to_loop env ser_to [] ix)"

partial_function (option) prune_from_loop ::
  "('t, 'k, 'v, 's, 'w, 'e, 'm, 'x, 'h) indexer_env \<Rightarrow> 'k \<Rightarrow> ('t, 's) indexer \<Rightarrow>
   ('e, unit, ('t, 's) indexer) step_result" where
  "prune_from_loop env ser_from ix =
     (case tree_pop_first_from (env_trees env) (block_hash_tree ix) ser_from of
        (Inl e, t) \<Rightarrow> Some (Inl (IxSledError e), ix\<lparr>block_hash_tree := t\<rparr>)
      | (Inr None, t) \<Rightarrow> Some (Inr (), ix\<lparr>block_hash_tree := t\<rparr>)
      | (Inr (Some (key, _)), t) \<Rightarrow>
          (case tree_remove (env_trees env) (pending_modifications_tree ix) key of
             (Inl e, t') \<Rightarrow> Some (Inl (IxSledError e), ix\<lparr>block_hash_tree := t, pending_modifications_tree := t'\<rparr>)
           | (Inr _, t') \<Rightarrow>
               prune_from_loop env ser_from (ix\<lparr>block_hash_tree := t, pending_modifications_tree := t'\<rparr>)))"

definition prune_from ::
  "('t, 'k, 'v, 's, 'w, 'e, 'm, 'x, 'h) indexer_env \<Rightarrow> u64 \<Rightarrow> ('t, 's) indexer \<Rightarrow>
   ('e, unit, ('t, 's) indexer) step_result" where
  "prune_from env from_block ix =
     (case ser_u64 (env_codec env) from_block of
        Inl e \<Rightarrow> Some (Inl (IxBincodeError e), ix)
      | Inr ser_from \<Rightarrow> prune_from_loop env ser_from ix)"

partial_function (option) find_common_ancestor ::
  "('t, 'k, 'v, 's, 'w, 'e, 'm, 'x, 'h) indexer_env \<Rightarrow> 'e rpc \<Rightarrow> 't \<Rightarrow> b256 \<Rightarrow>
   ('e indexer_error, u64) result option" where
  "find_common_ancestor env p block_hashes_tree cursor_hash =
     (case result_bind (map_err TransportError (get_block_by_hash p cursor_hash)) (ok_or ParentBlockNotFound) of
        Inl e \<Rightarrow> Some (Inl e)
      | Inr cursor_header \<Rightarrow>
          (case ser_u64 (env_codec env) (hdr_number cursor_header) of
             Inl e \<Rightarrow> Some (Inl (IxBincodeError e))
           | Inr key \<Rightarrow>
               (case tree_get (env_trees env) block_hashes_tree key of
                  Inl e \<Rightarrow> Some (Inl (IxSledError e))
                | Inr None \<Rightarrow> Some (Inl NoCommonAncestor)
                | Inr (Some hash) \<Rightarrow>
                    (case ser_b256 (env_codec env) (hdr_hash cursor_header) of
                       Inl e \<Rightarrow> Some (Inl (IxBincodeError e))
                     | Inr cursor_value \<Rightarrow>
                         if hash = cursor_value then Some (Inr (hdr_number cursor_header))
                         else find_common_ancestor env p block_hashes_tree (hdr_parent_hash cursor_header)))))"

section \<open>Indexing\<close>

definition extract_pending_modifications ::
  "('t, 'k, 'v, 's, 'w, 'e, 'm, 'x, 'h) indexer_env \<Rightarrow> executor_config \<Rightarrow> rpc_log \<Rightarrow> u64 \<Rightarrow>
   ('e indexer_error, pending_modification option) result" where
  "extract_pending_modifications env config log log_index =
     (let abi = env_events env in
      case rl_topics log of
        [] \<Rightarrow> Inr None
      | topic # _ \<Rightarrow>
          if topic = added_SIGNATURE_HASH abi then
            result_bind (map_err EventDecodeError (added_decode_topics abi (rl_topics log))) (\<lambda>_.
            result_bind (map_err EventDecodeError (added_decode_data abi (rl_data log))) (\<lambda>event.
            result_bind (map_err DaClientError (env_fetch_assertion env (added_assertionId event))) (\<lambda>response.
            let deployment_bytecode = da_bytecode response @ da_encoded_constructor_args response
            in case extract_assertion_contract (env_extract env) deployment_bytecode config of
                 Inr (assertion_contract, trigger_recorder) \<Rightarrow>
                   result_bind (ok_or IxBlockNumberExceedsU64 (try_into_u64 (added_activeAtBlock event)))
                     (\<lambda>active_at. Inr (Some (AddMod (added_contractAddress event) assertion_contract
                        trigger_recorder active_at log_index)))
               | Inl _ \<Rightarrow> Inr None)))
          else if topic = removed_SIGNATURE_HASH abi then
            result_bind (map_err EventDecodeError (removed_decode_topics abi (rl_topics log))) (\<lambda>_.
            result_bind (map_err EventDecodeError (removed_decode_data abi (rl_data log))) (\<lambda>event.
            result_bind (ok_or IxBlockNumberExceedsU64 (try_into_u64 (removed_activeAtBlock event)))
              (\<lambda>inactive_at. Inr (Some (RemoveMod (removed_contractAddress event)
                 (removed_assertionId event) inactive_at log_index)))))
          else Inr None)"

definition process_log ::
  "('t, 'k, 'v, 's, 'w, 'e, 'm, 'x, 'h) indexer_env \<Rightarrow> executor_config \<Rightarrow>
   (u64, (u64, pending_modification) btree_map) btree_map \<Rightarrow> rpc_log \<Rightarrow>
   ('e indexer_error, (u64, (u64, pending_modification) btree_map) btree_map) result" where
  "process_log env config pending log =
     result_bind (ok_or LogIndexMissing (rl_log_index log)) (\<lambda>log_index.
     result_bind (ok_or BlockNumberMissing (rl_block_number log)) (\<lambda>block_number.
     result_bind (extract_pending_modifications env config log log_index) (\<lambda>modification.
     Inr (case modification of
            None \<Rightarrow> pending
          | Some m \<Rightarrow> bt_entry block_number [] (bt_insert log_index m) pending))))"

definition pending_entry :: "('k, 'v, 'e) index_codec \<Rightarrow> u64 \<times> (u64, pending_modification) btree_map \<Rightarrow>
    ('e indexer_error, 'k \<times> 'v) result" where
  "pending_entry codec block =
     result_bind (map_err IxBincodeError (ser_u64 codec (fst block))) (\<lambda>key.
     result_bind (map_err IxBincodeError (ser_mods codec (bt_values (snd block)))) (\<lambda>value.
     Inr (key, value)))"

definition write_pending_modifications ::
  "('t, 'k, 'v, 's, 'w, 'e, 'm, 'x, 'h) indexer_env \<Rightarrow> (u64, (u64, pending_modification) btree_map) btree_map \<Rightarrow>
   ('t, 's) indexer \<Rightarrow> ('e, unit, ('t, 's) indexer) step_result" where
  "write_pending_modifications env pending ix =
     (case result_list (map (pending_entry (env_codec env)) pending) of
        Inl e \<Rightarrow> Some (Inl e, ix)
      | Inr batch \<Rightarrow>
          (let (r, t) = tree_apply_batch (env_trees env) (pending_modifications_tree ix) batch
           in Some (map_err IxSledError r, ix\<lparr>pending_modifications_tree := t\<rparr>)))"

definition u64_range :: "u64 \<Rightarrow> u64 \<Rightarrow> u64 list" where
  "u64_range a b = map of_nat [unat a ..< Suc (unat b)]"

definition block_hash_at :: "'e rpc \<Rightarrow> u64 \<Rightarrow> ('e indexer_error, block_num_hash) result" where
  "block_hash_at p i =
     result_bind (map_err TransportError (get_block_by_number p (TagNumber i))) (\<lambda>block.
     result_bind (ok_or BlockHashMissing block) (\<lambda>header.
     Inr \<lparr>bnh_number = i, bnh_hash = hdr_hash header\<rparr>))"

definition move_pending_modifications_to_store ::
  "('t, 'k, 'v, 's, 'w, 'e, 'm, 'x, 'h) indexer_env \<Rightarrow> u64 \<Rightarrow> ('t, 's) indexer \<Rightarrow>
   ('e, unit, ('t, 's) indexer) step_result" where
  "move_pending_modifications_to_store env upper_bound ix =
     (if upper_bound = 0 then Some (Inr (), ix)
      else ix_bind (prune_to env (upper_bound + 1) ix) (\<lambda>pending_modifications ix.
        if pending_modifications = [] then Some (Inr (), ix)
        else case apply_pending_modifications (env_store_ops env) (env_store_bincode env)
                 (env_store_interference env) (env_store_iter env) pending_modifications (ix_store ix) of
               None \<Rightarrow> None
             | Some (r, s) \<Rightarrow> Some (map_err AssertionStoreError r, ix\<lparr>ix_store := s\<rparr>)))"

definition index_range ::
  "('t, 'k, 'v, 's, 'w, 'e, 'm, 'x, 'h) indexer_env \<Rightarrow> 'e rpc \<Rightarrow> u64 \<Rightarrow> u64 \<Rightarrow> ('t, 's) indexer \<Rightarrow>
   ('e, unit, ('t, 's) indexer) step_result" where
  "index_range env p from_block to ix =
     ix_bind (ix_result (map_err TransportError (get_logs_in p (state_oracle ix) from_block to)) ix) (\<lambda>logs ix.
     ix_bind (ix_result (result_fold (process_log env (ix_executor_config ix)) [] logs) ix) (\<lambda>pending ix.
     ix_bind (write_pending_modifications env pending ix) (\<lambda>_ ix.
     ix_bind (ix_result (result_list (map (block_hash_at p) (u64_range from_block to))) ix) (\<lambda>block_hashes ix.
     ix_bind (if block_hashes = [] then Some (Inr (), ix)
              else insert_last_indexed_block_num_hash env (last block_hashes) ix) (\<lambda>_ ix.
     ix_bind (write_block_num_hash_batch env block_hashes ix) (\<lambda>_ ix.
     ix_bind (ix_result (result_bind (map_err TransportError
         (get_block_by_number p (block_tag_into (await_tag ix)))) (ok_or ParentBlockNotFound)) ix) (\<lambda>block_to_move ix.
     move_pending_modifications_to_store env (hdr_number block_to_move) ix)))))))"

section \<open>Syncing\<close>

partial_function (option) sync_loop ::
  "('t, 'k, 'v, 's, 'w, 'e, 'm, 'x, 'h) indexer_env \<Rightarrow> (nat \<Rightarrow> 'e rpc) \<Rightarrow> nat \<Rightarrow> u64 \<Rightarrow> u64 \<Rightarrow> u64 \<Rightarrow>
   ('t, 's) indexer \<Rightarrow> ('e, unit, ('t, 's) indexer) step_result" where
  "sync_loop env node k update_block_number max_blocks_per_call current_from ix =
     (if current_from \<le> update_block_number then
        (let current_to = min (current_from + max_blocks_per_call - 1) update_block_number in
         case index_range env (node k) current_from current_to ix of
           None \<Rightarrow> None
         | Some (Inl e, ix') \<Rightarrow> Some (Inl e, ix')
         | Some (Inr _, ix') \<Rightarrow>
             if current_to = update_block_number then Some (Inr (), ix')
             else sync_loop env node (Suc k) update_block_number max_blocks_per_call (current_to + 1) ix')
      else Some (Inr (), ix))"

definition undo_reorg ::
  "('t, 'k, 'v, 's, 'w, 'e, 'm, 'x, 'h) indexer_env \<Rightarrow> 'e rpc \<Rightarrow> update_block \<Rightarrow> ('t, 's) indexer \<Rightarrow>
   ('e, u64, ('t, 's) indexer) step_result" where
  "undo_reorg env p upd ix =
     (case find_common_ancestor env p (block_hash_tree ix) (ub_parent_hash upd) of
        None \<Rightarrow> None
      | Some (Inl e) \<Rightarrow> Some (Inl e, ix)
      | Some (Inr common_ancestor) \<Rightarrow>
          ix_bind (prune_from env (common_ancestor + 1) ix) (\<lambda>_ ix.
          ix_bind (insert_last_indexed_block_num_hash env
            \<lparr>bnh_number = common_ancestor, bnh_hash = ub_parent_hash upd\<rparr> ix) (\<lambda>_ ix.
          Some (Inr (common_ancestor + 1), ix))))"

definition sync_start ::
  "('t, 'k, 'v, 's, 'w, 'e, 'm, 'x, 'h) indexer_env \<Rightarrow> 'e rpc \<Rightarrow> update_block \<Rightarrow> ('t, 's) indexer \<Rightarrow>
   ('e, u64, ('t, 's) indexer) step_result" where
  "sync_start env p upd ix =
     (case get_last_indexed_block_num_hash env ix of
        Inl e \<Rightarrow> Some (Inl e, ix)
      | Inr None \<Rightarrow> Some (Inr 0, ix)
      | Inr (Some last_indexed) \<Rightarrow>
          (case check_if_reorged p upd last_indexed of
             None \<Rightarrow> None
           | Some (Inl e) \<Rightarrow> Some (Inl (CheckIfReorgedError e), ix)
           | Some (Inr is_reorg) \<Rightarrow>
               if is_reorg then undo_reorg env p upd ix
               else Some (Inr (bnh_number last_indexed + 1), ix)))"

definition sync ::
  "('t, 'k, 'v, 's, 'w, 'e, 'm, 'x, 'h) indexer_env \<Rightarrow> (nat \<Rightarrow> 'e rpc) \<Rightarrow> update_block \<Rightarrow> u64 \<Rightarrow>
   ('t, 's) indexer \<Rightarrow> ('e, unit, ('t, 's) indexer) step_result" where
  "sync env node upd max_blocks_per_call ix =
     ix_bind (sync_start env (node 0) upd ix) (\<lambda>from_block ix.
       sync_loop env node 1 (ub_block_number upd) max_blocks_per_call from_block ix)"

definition header_update :: "block_header \<Rightarrow> update_block" where
  "header_update header = \<lparr>ub_block_number = hdr_number header, ub_block_hash = hdr_hash header,
     ub_parent_hash = hdr_parent_hash header\<rparr>"

definition handle_latest_block ::
  "('t, 'k, 'v, 's, 'w, 'e, 'm, 'x, 'h) indexer_env \<Rightarrow> (nat \<Rightarrow> 'e rpc) \<Rightarrow> block_header \<Rightarrow>
   ('t, 's) indexer \<Rightarrow> ('e, unit, ('t, 's) indexer) step_result" where
  "handle_latest_block env node header ix = sync env node (header_update header) MAX_BLOCKS_PER_CALL ix"

definition sync_to_head ::
  "('t, 'k, 'v, 's, 'w, 'e, 'm, 'x, 'h) indexer_env \<Rightarrow> 'e rpc \<Rightarrow> (nat \<Rightarrow> 'e rpc) \<Rightarrow>
   ('t, 's) indexer \<Rightarrow> ('e, unit, ('t, 's) indexer) step_result" where
  "sync_to_head env p node ix =
     (case get_block_by_number p TagLatest of
        Inl e \<Rightarrow> Some (Inl (TransportError e), ix)
      | Inr None \<Rightarrow> Some (Inr (), ix)
      | Inr (Some latest_block_header) \<Rightarrow>
          ix_bind (sync env node (header_update latest_block_header) MAX_BLOCKS_PER_CALL ix) (\<lambda>_ ix.
          Some (Inr (), ix\<lparr>is_synced := True\<rparr>)))"

definition new_synced ::
  "('t, 'k, 'v, 's, 'w, 'e, 'm, 'x, 'h) indexer_env \<Rightarrow> 'e rpc \<Rightarrow> (nat \<Rightarrow> 'e rpc) \<Rightarrow>
   ('t, 's) indexer_cfg \<Rightarrow> ('e, unit, ('t, 's) indexer) step_result" where
  "new_synced env p node cfg = sync_to_head env p node (indexer_new cfg)"

text \<open>\<open>stream n\<close> is the n-th message of the block subscription, \<open>node n\<close> the node while it is handled.\<close>

partial_function (option) run_loop ::
  "('t, 'k, 'v, 's, 'w, 'e, 'm, 'x, 'h) indexer_env \<Rightarrow> (nat \<Rightarrow> nat \<Rightarrow> 'e rpc) \<Rightarrow>
   (nat \<Rightarrow> ('e, block_header) result) \<Rightarrow> nat \<Rightarrow> ('t, 's) indexer \<Rightarrow> ('e, unit, ('t, 's) indexer) step_result" where
  "run_loop env node stream n ix =
     (case stream n of
        Inl e \<Rightarrow> Some (Inl (BlockStreamError e), ix)
      | Inr latest_block \<Rightarrow>
          (case handle_latest_block env (node n) latest_block ix of
             None \<Rightarrow> None
           | Some (Inl e, ix') \<Rightarrow> Some (Inl e, ix')
           | Some (Inr _, ix') \<Rightarrow> run_loop env node stream (Suc n) ix'))"

definition run ::
  "('t, 'k, 'v, 's, 'w, 'e, 'm, 'x, 'h) indexer_env \<Rightarrow> ('e, nat \<Rightarrow> ('e, block_header) result) result \<Rightarrow>
   (nat \<Rightarrow> nat \<Rightarrow> 'e rpc) \<Rightarrow> ('t, 's) indexer \<Rightarrow> ('e, unit, ('t, 's) indexer) step_result" where
  "run env subscription node ix =
     (if \<not> is_synced ix then Some (Inl StoreNotSynced, ix)
      else case subscription of
             Inl e \<Rightarrow> Some (Inl (TransportError e), ix)
           | Inr stream \<Rightarrow> run_loop env node stream 0 ix)"

section \<open>The index as block numbers\<close>

text \<open>What the trees hold, by block number: the abstract state of the indexer.\<close>

record 'v index_view =
  iv_hashes :: "u64 \<Rightarrow> 'v option"
  iv_pending :: "u64 \<Rightarrow> 'v option"

definition view_of :: "('t, 'k, 'v, 's, 'w, 'e, 'm, 'x, 'h) indexer_env \<Rightarrow> ('t \<Rightarrow> 'k \<rightharpoonup> 'v) \<Rightarrow>
    ('t, 's) indexer \<Rightarrow> 'v index_view" where
  "view_of env tcontent ix =
     \<lparr>iv_hashes = entry_at (env_codec env) (tcontent (block_hash_tree ix)),
      iv_pending = entry_at (env_codec env) (tcontent (pending_modifications_tree ix))\<rparr>"

definition view_mods :: "('k, 'v, 'e) index_codec \<Rightarrow> 'v index_view \<Rightarrow> u64 \<Rightarrow> pending_modification list" where
  "view_mods c w n = (case iv_pending w n of
       None \<Rightarrow> []
     | Some v \<Rightarrow> (case de_mods c v of Inl _ \<Rightarrow> [] | Inr ms \<Rightarrow> ms))"

text \<open>The modifications of the blocks below a bound, oldest block first.\<close>

definition mods_below :: "('k, 'v, 'e) index_codec \<Rightarrow> 'v index_view \<Rightarrow> u64 \<Rightarrow> pending_modification list" where
  "mods_below c w to = concat (map (view_mods c w) (sorted_list_of_set {n. n < to \<and> iv_hashes w n \<noteq> None}))"

definition view_prune_to :: "u64 \<Rightarrow> 'v index_view \<Rightarrow> 'v index_view" where
  "view_prune_to to w =
     \<lparr>iv_hashes = \<lambda>n. if n < to then None else iv_hashes w n,
      iv_pending = \<lambda>n. if n < to \<and> iv_hashes w n \<noteq> None then None else iv_pending w n\<rparr>"

definition view_prune_from :: "u64 \<Rightarrow> 'v index_view \<Rightarrow> 'v index_view" where
  "view_prune_from start w =
     \<lparr>iv_hashes = \<lambda>n. if start \<le> n then None else iv_hashes w n,
      iv_pending = \<lambda>n. if start \<le> n \<and> iv_hashes w n \<noteq> None then None else iv_pending w n\<rparr>"

definition view_drop :: "u64 \<Rightarrow> 'v index_view \<Rightarrow> 'v index_view" where
  "view_drop n w = \<lparr>iv_hashes = (iv_hashes w)(n := None), iv_pending = (iv_pending w)(n := None)\<rparr>"

text \<open>Pending modifications can be read again.\<close>

definition decodable :: "('k, 'v, 'e) index_codec \<Rightarrow> 'v index_view \<Rightarrow> bool" where
  "decodable c w \<longleftrightarrow> (\<forall>n v. iv_pending w n = Some v \<longrightarrow> (\<exists>ms. de_mods c v = Inr ms))"

lemma view_drop_sel [simp]:
  "iv_hashes (view_drop n w) m = (if m = n then None else iv_hashes w m)"
  "iv_pending (view_drop n w) m = (if m = n then None else iv_pending w m)"
  by (simp_all add: view_drop_def)

lemma view_prune_to_sel [simp]:
  "iv_hashes (view_prune_to to w) n = (if n < to then None else iv_hashes w n)"
  "iv_pending (view_prune_to to w) n = (if n < to \<and> iv_hashes w n \<noteq> None then None else iv_pending w n)"
  by (simp_all add: view_prune_to_def)

lemma view_prune_from_sel [simp]:
  "iv_hashes (view_prune_from start w) n = (if start \<le> n then None else iv_hashes w n)"
  "iv_pending (view_prune_from start w) n = (if start \<le> n \<and> iv_hashes w n \<noteq> None then None else iv_pending w n)"
  by (simp_all add: view_prune_from_def)

lemma view_eqI:
  "(\<And>n. iv_hashes w n = iv_hashes w' n) \<Longrightarrow> (\<And>n. iv_pending w n = iv_pending w' n) \<Longrightarrow> w = w'"
  for w w' :: "'v index_view"
  by (simp add: fun_eq_iff)

lemma view_prune_to_drop:
  "n < to \<Longrightarrow> iv_hashes w n \<noteq> None \<Longrightarrow> view_prune_to to (view_drop n w) = view_prune_to to w"
  by (rule view_eqI) auto

lemma view_prune_from_drop:
  "start \<le> n \<Longrightarrow> iv_hashes w n \<noteq> None \<Longrightarrow> view_prune_from start (view_drop n w) = view_prune_from start w"
  by (rule view_eqI) auto

lemma decodable_drop: "decodable c w \<Longrightarrow> decodable c (view_drop n w)"
  by (simp add: decodable_def)

lemma mods_below_drop:
  assumes "n < to" and "iv_hashes w n \<noteq> None" and "\<And>m. iv_hashes w m \<noteq> None \<Longrightarrow> n \<le> m"
  shows "mods_below c w to = view_mods c w n @ mods_below c (view_drop n w) to"
proof -
  let ?S = "{m. m < to \<and> iv_hashes w m \<noteq> None}"
  have "Min ?S = n" using assms by (intro Min_eqI) auto
  moreover have "?S \<noteq> {}" using assms by blast
  ultimately have S: "sorted_list_of_set ?S = n # sorted_list_of_set (?S - {n})"
    by (subst sorted_list_of_set_nonempty) auto
  have S': "{m. m < to \<and> iv_hashes (view_drop n w) m \<noteq> None} = ?S - {n}" by auto
  have "map (view_mods c (view_drop n w)) (sorted_list_of_set (?S - {n})) =
      map (view_mods c w) (sorted_list_of_set (?S - {n}))"
    by (rule map_cong) (auto simp: view_mods_def)
  then show ?thesis unfolding mods_below_def S S' by (simp only: list.map concat.simps)
qed

lemma mods_below_none: "(\<And>n. n < to \<Longrightarrow> iv_hashes w n = None) \<Longrightarrow> mods_below c w to = []"
  unfolding mods_below_def by (metis (mono_tags, lifting) Collect_empty_eq concat.simps(1) list.map(1) sorted_list_of_set_empty)

text \<open>Nothing but the two trees of block entries differs.\<close>

definition same_rest :: "('t, 's) indexer \<Rightarrow> ('t, 's) indexer \<Rightarrow> bool" where
  "same_rest ix ix' \<longleftrightarrow> ix' = ix\<lparr>block_hash_tree := block_hash_tree ix',
     pending_modifications_tree := pending_modifications_tree ix'\<rparr>"

lemma same_rest_refl [simp]: "same_rest ix ix"
  by (simp add: same_rest_def)

lemma same_rest_update [simp]:
  "same_rest ix (ix\<lparr>block_hash_tree := t\<rparr>)"
  "same_rest ix (ix\<lparr>block_hash_tree := t, pending_modifications_tree := t'\<rparr>)"
  "same_rest (ix\<lparr>block_hash_tree := t, pending_modifications_tree := t'\<rparr>) ix' = same_rest ix ix'"
  by (simp_all add: same_rest_def)

lemma same_rest_sel:
  "same_rest ix ix' \<Longrightarrow> latest_block_tree ix' = latest_block_tree ix \<and> ix_store ix' = ix_store ix \<and>
    state_oracle ix' = state_oracle ix \<and> ix_executor_config ix' = ix_executor_config ix \<and>
    is_synced ix' = is_synced ix \<and> await_tag ix' = await_tag ix"
  unfolding same_rest_def by (metis (no_types) indexer.select_convs indexer.surjective indexer.update_convs(1,3))

locale indexed = index_trees "env_trees env" "env_codec env" tcontent
  for env :: "('t, 'k::linorder, 'v, 's, 'w, 'e, 'm, 'x, 'h) indexer_env" and tcontent
begin

lemma view_sel [simp]:
  "iv_hashes (view_of env tcontent ix) = entry_at (env_codec env) (tcontent (block_hash_tree ix))"
  "iv_pending (view_of env tcontent ix) = entry_at (env_codec env) (tcontent (pending_modifications_tree ix))"
  by (simp_all add: view_of_def)

text \<open>One turn of a pruning loop drops one block.\<close>

lemma drop_block:
  assumes "ser_u64 (env_codec env) n = Inr k"
    and "tcontent t = (tcontent (block_hash_tree ix))(k := None)"
    and "tree_remove (env_trees env) (pending_modifications_tree ix) k = (Inr old, t')"
  shows "view_of env tcontent (ix\<lparr>block_hash_tree := t, pending_modifications_tree := t'\<rparr>) =
      view_drop n (view_of env tcontent ix) \<and> old = iv_pending (view_of env tcontent ix) n"
proof -
  note rm = remove_entry [OF assms(3)]
  have "view_of env tcontent (ix\<lparr>block_hash_tree := t, pending_modifications_tree := t'\<rparr>) =
      view_drop n (view_of env tcontent ix)"
    by (rule view_eqI) (simp_all add: assms(2) rm entry_at_update [OF assms(1)] del: fun_upd_apply)
  moreover have "old = iv_pending (view_of env tcontent ix) n"
    using rm assms(1) by (simp add: entry_at_def)
  ultimately show ?thesis by simp
qed

text \<open>One turn of the loop that prunes from below: the smallest block leaves both trees, and its
  modifications are appended, unless a tree fails or the entry cannot be decoded.\<close>

lemma prune_to_turn:
  assumes "tree_pop_first_to (env_trees env) (block_hash_tree ix) b = (Inr (Some (k, v)), t)"
    and "ser_u64 (env_codec env) n = Inr k" and "tcontent t = (tcontent (block_hash_tree ix))(k := None)"
  shows "(\<exists>e t'. prune_to_loop env b mods ix = Some (Inl e, ix\<lparr>block_hash_tree := t, pending_modifications_tree := t'\<rparr>) \<and>
      \<not> (index_trees_available (env_trees env) (env_codec env) tcontent \<and> decodable (env_codec env) (view_of env tcontent ix))) \<or>
    (\<exists>t'. prune_to_loop env b mods ix = prune_to_loop env b (mods @ view_mods (env_codec env) (view_of env tcontent ix) n)
        (ix\<lparr>block_hash_tree := t, pending_modifications_tree := t'\<rparr>) \<and>
      view_of env tcontent (ix\<lparr>block_hash_tree := t, pending_modifications_tree := t'\<rparr>) =
        view_drop n (view_of env tcontent ix))"
proof -
  obtain rr t' where rm: "tree_remove (env_trees env) (pending_modifications_tree ix) k = (rr, t')" by fastforce
  consider (fail) e where "rr = Inl e" | (bad) e w where "rr = Inr (Some w)" "de_mods (env_codec env) w = Inl e"
    | (good) old where "rr = Inr old" "\<And>w. old = Some w \<Longrightarrow> \<exists>ms. de_mods (env_codec env) w = Inr ms"
    by (metis sum.exhaust)
  then show ?thesis
  proof cases
    case fail
    have "\<not> index_trees_available (env_trees env) (env_codec env) tcontent"
      using index_trees_available.remove_returns [of "env_trees env" "env_codec env" tcontent] rm fail
      by (metis Pair_inject sum.distinct(1))
    moreover have "prune_to_loop env b mods ix =
        Some (Inl (IxSledError e), ix\<lparr>block_hash_tree := t, pending_modifications_tree := t'\<rparr>)"
      by (subst prune_to_loop.simps) (simp add: assms(1) rm fail)
    ultimately show ?thesis by blast
  next
    case bad
    have "\<not> decodable (env_codec env) (view_of env tcontent ix)"
      using drop_block [OF assms(2,3) rm [unfolded bad(1)]] bad(2) by (metis decodable_def sum.distinct(1))
    moreover have "prune_to_loop env b mods ix =
        Some (Inl (IxBincodeError e), ix\<lparr>block_hash_tree := t, pending_modifications_tree := t'\<rparr>)"
      by (subst prune_to_loop.simps) (simp add: assms(1) rm bad)
    ultimately show ?thesis by blast
  next
    case good
    from drop_block [OF assms(2,3) rm [unfolded good(1)]] have old: "old = iv_pending (view_of env tcontent ix) n"
      and view: "view_of env tcontent (ix\<lparr>block_hash_tree := t, pending_modifications_tree := t'\<rparr>) =
        view_drop n (view_of env tcontent ix)" by simp_all
    have "prune_to_loop env b mods ix = prune_to_loop env b (mods @ view_mods (env_codec env) (view_of env tcontent ix) n)
        (ix\<lparr>block_hash_tree := t, pending_modifications_tree := t'\<rparr>)"
      using good(2) by (subst prune_to_loop.simps)
        (auto simp: assms(1) rm good(1) view_mods_def old simp del: view_sel split: option.splits)
    with view show ?thesis by blast
  qed
qed

lemma prune_to_loop_spec:
  assumes "block_keys (env_codec env) (tcontent (block_hash_tree ix))" and "ser_u64 (env_codec env) to = Inr b"
  shows "\<exists>r ix'. prune_to_loop env b mods ix = Some (r, ix') \<and> same_rest ix ix' \<and>
    (\<forall>res. r = Inr res \<longrightarrow> res = mods @ mods_below (env_codec env) (view_of env tcontent ix) to \<and>
       view_of env tcontent ix' = view_prune_to to (view_of env tcontent ix) \<and>
       block_keys (env_codec env) (tcontent (block_hash_tree ix'))) \<and>
    (index_trees_available (env_trees env) (env_codec env) tcontent \<and>
      decodable (env_codec env) (view_of env tcontent ix) \<longrightarrow> (\<exists>res. r = Inr res))"
  using assms(1)
proof (induction "card (dom (tcontent (block_hash_tree ix)))" arbitrary: ix mods rule: less_induct)
  case less
  obtain pr t where pop: "tree_pop_first_to (env_trees env) (block_hash_tree ix) b = (pr, t)" by fastforce
  consider (err) e where "pr = Inl e" | (stop) "pr = Inr None" | (turn) k v where "pr = Inr (Some (k, v))"
    by (metis sum.exhaust option.exhaust surj_pair)
  then show ?case
  proof cases
    case err
    have "\<not> index_trees_available (env_trees env) (env_codec env) tcontent"
      using index_trees_available.pop_to_returns [of "env_trees env" "env_codec env" tcontent "block_hash_tree ix" b] pop err by auto
    then show ?thesis by (subst prune_to_loop.simps) (simp add: pop err)
  next
    case stop
    have "view_prune_to to (view_of env tcontent ix) = view_of env tcontent ix"
      using pop_to_end [OF assms(2) pop [unfolded stop]] by (intro view_eqI) auto
    then show ?thesis using less.prems pop_to_none [OF pop [unfolded stop]]
        mods_below_none [of to "view_of env tcontent ix"] pop_to_end [OF assms(2) pop [unfolded stop]]
      by (subst prune_to_loop.simps) (simp add: pop stop view_of_def)
  next
    case (turn k v)
    from pop_to_block [OF less.prems assms(2) pop [unfolded turn]] obtain n where
      n: "ser_u64 (env_codec env) n = Inr k" "n < to" "iv_hashes (view_of env tcontent ix) n \<noteq> None"
        "\<And>m. iv_hashes (view_of env tcontent ix) m \<noteq> None \<Longrightarrow> n \<le> m"
        "tcontent t = (tcontent (block_hash_tree ix))(k := None)"
      and bk: "block_keys (env_codec env) (tcontent t)"
        "card (dom (tcontent t)) < card (dom (tcontent (block_hash_tree ix)))" by auto
    from prune_to_turn [OF pop [unfolded turn] n(1,5), of mods] show ?thesis
    proof (elim disjE exE conjE)
      fix e t'
      assume "prune_to_loop env b mods ix = Some (Inl e, ix\<lparr>block_hash_tree := t, pending_modifications_tree := t'\<rparr>)"
        "\<not> (index_trees_available (env_trees env) (env_codec env) tcontent \<and> decodable (env_codec env) (view_of env tcontent ix))"
      then show ?thesis by simp
    next
      fix t'
      let ?ix = "ix\<lparr>block_hash_tree := t, pending_modifications_tree := t'\<rparr>"
      assume loop: "prune_to_loop env b mods ix =
          prune_to_loop env b (mods @ view_mods (env_codec env) (view_of env tcontent ix) n) ?ix"
        and view: "view_of env tcontent ?ix = view_drop n (view_of env tcontent ix)"
      moreover have "mods_below (env_codec env) (view_of env tcontent ix) to =
          view_mods (env_codec env) (view_of env tcontent ix) n @
          mods_below (env_codec env) (view_drop n (view_of env tcontent ix)) to"
        by (rule mods_below_drop [OF n(2-4)])
      ultimately show ?thesis
        using less.hyps [of ?ix "mods @ view_mods (env_codec env) (view_of env tcontent ix) n"] bk
          decodable_drop [of "env_codec env" "view_of env tcontent ix" n]
        by (simp add: view view_prune_to_drop [OF n(2,3)]) blast
    qed
  qed
qed

lemma prune_to_spec:
  assumes "block_keys (env_codec env) (tcontent (block_hash_tree ix))"
  shows "\<exists>r ix'. prune_to env to ix = Some (r, ix') \<and> same_rest ix ix' \<and>
    (\<forall>res. r = Inr res \<longrightarrow> res = mods_below (env_codec env) (view_of env tcontent ix) to \<and>
       view_of env tcontent ix' = view_prune_to to (view_of env tcontent ix) \<and>
       block_keys (env_codec env) (tcontent (block_hash_tree ix'))) \<and>
    (index_trees_available (env_trees env) (env_codec env) tcontent \<and>
      decodable (env_codec env) (view_of env tcontent ix) \<longrightarrow> (\<exists>res. r = Inr res))"
proof (cases "ser_u64 (env_codec env) to")
  case (Inl e)
  have "\<not> index_trees_available (env_trees env) (env_codec env) tcontent"
    using index_trees_available.ser_u256_returns [of "env_trees env" "env_codec env" tcontent "ucast to"] Inl
    by (auto simp: ser_u64_def)
  with Inl show ?thesis by (simp add: prune_to_def)
next
  case (Inr b)
  from prune_to_loop_spec [OF assms Inr, of "[]"] show ?thesis by (simp add: prune_to_def Inr)
qed

lemma prune_from_loop_spec:
  assumes "block_keys (env_codec env) (tcontent (block_hash_tree ix))" and "ser_u64 (env_codec env) start = Inr b"
  shows "\<exists>r ix'. prune_from_loop env b ix = Some (r, ix') \<and> same_rest ix ix' \<and>
    (\<forall>u. r = Inr u \<longrightarrow> view_of env tcontent ix' = view_prune_from start (view_of env tcontent ix) \<and>
       block_keys (env_codec env) (tcontent (block_hash_tree ix'))) \<and>
    (index_trees_available (env_trees env) (env_codec env) tcontent \<longrightarrow> r = Inr ())"
  using assms(1)
proof (induction "card (dom (tcontent (block_hash_tree ix)))" arbitrary: ix rule: less_induct)
  case less
  obtain pr t where pop: "tree_pop_first_from (env_trees env) (block_hash_tree ix) b = (pr, t)" by fastforce
  consider (err) e where "pr = Inl e" | (stop) "pr = Inr None" | (turn) k v where "pr = Inr (Some (k, v))"
    by (metis sum.exhaust option.exhaust surj_pair)
  then show ?case
  proof cases
    case err
    have "\<not> index_trees_available (env_trees env) (env_codec env) tcontent"
      using index_trees_available.pop_from_returns [of "env_trees env" "env_codec env" tcontent "block_hash_tree ix" b] pop err by auto
    then show ?thesis by (subst prune_from_loop.simps) (simp add: pop err)
  next
    case stop
    have "view_prune_from start (view_of env tcontent ix) = view_of env tcontent ix"
      using pop_from_end [OF assms(2) pop [unfolded stop]] by (intro view_eqI) auto
    then show ?thesis using less.prems pop_from_none [OF pop [unfolded stop]]
      by (subst prune_from_loop.simps) (simp add: pop stop view_of_def)
  next
    case (turn k v)
    from pop_from_block [OF less.prems assms(2) pop [unfolded turn]] obtain n where
      n: "ser_u64 (env_codec env) n = Inr k" "start \<le> n" "iv_hashes (view_of env tcontent ix) n \<noteq> None"
        "tcontent t = (tcontent (block_hash_tree ix))(k := None)"
      and bk: "block_keys (env_codec env) (tcontent t)"
        "card (dom (tcontent t)) < card (dom (tcontent (block_hash_tree ix)))" by auto
    obtain rr t' where rm: "tree_remove (env_trees env) (pending_modifications_tree ix) k = (rr, t')" by fastforce
    let ?ix = "ix\<lparr>block_hash_tree := t, pending_modifications_tree := t'\<rparr>"
    show ?thesis
    proof (cases rr)
      case (Inl e)
      have "\<not> index_trees_available (env_trees env) (env_codec env) tcontent"
        using index_trees_available.remove_returns [of "env_trees env" "env_codec env" tcontent] rm Inl
        by (metis Pair_inject sum.distinct(1))
      then show ?thesis by (subst prune_from_loop.simps) (simp add: pop turn rm Inl)
    next
      case (Inr old)
      from drop_block [OF n(1,4) rm [unfolded Inr]]
      have view: "view_of env tcontent ?ix = view_drop n (view_of env tcontent ix)" by simp
      have "prune_from_loop env b ix = prune_from_loop env b ?ix"
        by (subst prune_from_loop.simps) (simp add: pop turn rm Inr)
      with less.hyps [of ?ix] bk show ?thesis by (simp add: view view_prune_from_drop [OF n(2,3)])
    qed
  qed
qed

lemma prune_from_spec:
  assumes "block_keys (env_codec env) (tcontent (block_hash_tree ix))"
  shows "\<exists>r ix'. prune_from env start ix = Some (r, ix') \<and> same_rest ix ix' \<and>
    (\<forall>u. r = Inr u \<longrightarrow> view_of env tcontent ix' = view_prune_from start (view_of env tcontent ix) \<and>
       block_keys (env_codec env) (tcontent (block_hash_tree ix'))) \<and>
    (index_trees_available (env_trees env) (env_codec env) tcontent \<longrightarrow> r = Inr ())"
proof (cases "ser_u64 (env_codec env) start")
  case (Inl e)
  have "\<not> index_trees_available (env_trees env) (env_codec env) tcontent"
    using index_trees_available.ser_u256_returns [of "env_trees env" "env_codec env" tcontent "ucast start"] Inl
    by (auto simp: ser_u64_def)
  with Inl show ?thesis by (simp add: prune_from_def)
next
  case (Inr b)
  from prune_from_loop_spec [OF assms Inr] show ?thesis by (simp add: prune_from_def Inr)
qed

end

end
