(* ===== verification/Syncing.thy ===== *)
theory Syncing
  imports Indexer
begin

text \<open>
  What the steps of the indexer do to the abstract index: the search for the common ancestor of two
  branches, the modifications a list of logs contributes to a block (a reference definition the
  nested ordered maps of the log loop are compared with), the writes of a range of blocks and the
  move of old blocks to the store.
\<close>

section \<open>The common ancestor\<close>

text \<open>Whether the index has an entry for a block's height, and whether that entry is the block's hash.\<close>

definition height_indexed :: "('t, 'k, 'v, 's, 'w, 'e, 'm, 'x, 'h) indexer_env \<Rightarrow> ('t \<Rightarrow> 'k \<rightharpoonup> 'v) \<Rightarrow> 't \<Rightarrow>
    block_header \<Rightarrow> bool" where
  "height_indexed env tcontent t blk \<longleftrightarrow> entry_at (env_codec env) (tcontent t) (hdr_number blk) \<noteq> None"

definition block_indexed :: "('t, 'k, 'v, 's, 'w, 'e, 'm, 'x, 'h) indexer_env \<Rightarrow> ('t \<Rightarrow> 'k \<rightharpoonup> 'v) \<Rightarrow> 't \<Rightarrow>
    block_header \<Rightarrow> bool" where
  "block_indexed env tcontent t blk \<longleftrightarrow>
     hash_is (env_codec env) (tcontent t) (hdr_number blk) (hdr_hash blk)"

lemma block_indexed_height: "block_indexed env tcontent t blk \<Longrightarrow> height_indexed env tcontent t blk"
  by (auto simp: block_indexed_def height_indexed_def hash_is_def split: option.splits)

lemma ancestor_step:
  "get_block_by_hash p h = Inr (Some hdr) \<Longrightarrow>
    ancestor p h blk \<longleftrightarrow> blk = hdr \<or> ancestor p (hdr_parent_hash hdr) blk"
  by (auto intro: anc_here anc_parent elim: ancestorE)

text \<open>What the search over the ancestors \<open>A\<close> may return: the highest one that is indexed, with nothing
  but other indexed hashes above it; or an error, when every indexed one is hidden by a height
  above it that is not indexed.\<close>

definition ancestor_result :: "('t, 'k::linorder, 'v, 's, 'w, 'e, 'm, 'x, 'h) indexer_env \<Rightarrow> ('t \<Rightarrow> 'k \<rightharpoonup> 'v) \<Rightarrow> 't \<Rightarrow>
    block_header set \<Rightarrow> ('e indexer_error, u64) result \<Rightarrow> bool" where
  "ancestor_result env tcontent t A r \<longleftrightarrow> (case r of
       Inr n \<Rightarrow> (\<exists>blk \<in> A. hdr_number blk = n \<and> block_indexed env tcontent t blk) \<and>
         (\<forall>blk \<in> A. n < hdr_number blk \<longrightarrow>
            height_indexed env tcontent t blk \<and> \<not> block_indexed env tcontent t blk)
     | Inl _ \<Rightarrow> index_trees_available (env_trees env) (env_codec env) tcontent \<longrightarrow>
         (\<forall>blk \<in> A. block_indexed env tcontent t blk \<longrightarrow>
            (\<exists>blk' \<in> A. hdr_number blk < hdr_number blk' \<and> \<not> height_indexed env tcontent t blk')))"

lemma ancestor_result_walk:
  "ancestor_result env tcontent t A r \<Longrightarrow> height_indexed env tcontent t hdr \<Longrightarrow>
   \<not> block_indexed env tcontent t hdr \<Longrightarrow> ancestor_result env tcontent t (insert hdr A) r"
  unfolding ancestor_result_def by (cases r) auto

locale chain_indexer = indexed env tcontent + chain_provider p
  for env :: "('t, 'k::linorder, 'v, 's, 'w, 'e, 'm, 'x, 'h) indexer_env" and tcontent and p :: "'e rpc"
begin

text \<open>One turn of the search, at a block the node returns.\<close>

lemma common_ancestor_turn:
  assumes "get_block_by_hash p h = Inr (Some hdr)"
  obtains (found) "find_common_ancestor env p t h = Some (Inr (hdr_number hdr))" "block_indexed env tcontent t hdr"
  | (walk) "find_common_ancestor env p t h = find_common_ancestor env p t (hdr_parent_hash hdr)"
      "height_indexed env tcontent t hdr" "\<not> block_indexed env tcontent t hdr"
  | (gap) e where "find_common_ancestor env p t h = Some (Inl e)" "\<not> height_indexed env tcontent t hdr"
  | (fault) e where "find_common_ancestor env p t h = Some (Inl e)"
      "\<not> index_trees_available (env_trees env) (env_codec env) tcontent"
proof -
  have step: "find_common_ancestor env p t h =
      (case ser_u64 (env_codec env) (hdr_number hdr) of
         Inl e \<Rightarrow> Some (Inl (IxBincodeError e))
       | Inr key \<Rightarrow> (case tree_get (env_trees env) t key of
             Inl e \<Rightarrow> Some (Inl (IxSledError e))
           | Inr None \<Rightarrow> Some (Inl NoCommonAncestor)
           | Inr (Some v) \<Rightarrow> (case ser_b256 (env_codec env) (hdr_hash hdr) of
                 Inl e \<Rightarrow> Some (Inl (IxBincodeError e))
               | Inr w \<Rightarrow> if v = w then Some (Inr (hdr_number hdr))
                   else find_common_ancestor env p t (hdr_parent_hash hdr))))"
    using assms by (subst find_common_ancestor.simps) simp
  show thesis
  proof (cases "ser_u64 (env_codec env) (hdr_number hdr)")
    case (Inl e)
    with step index_trees_available.ser_u256_returns [of "env_trees env" "env_codec env" tcontent "ucast (hdr_number hdr)"]
    show thesis by (intro fault) (auto simp: ser_u64_def)
  next
    case key: (Inr key)
    show thesis
    proof (cases "tree_get (env_trees env) t key")
      case (Inl e)
      with step key index_trees_available.get_returns [of "env_trees env" "env_codec env" tcontent t key]
      show thesis by (intro fault) auto
    next
      case got: (Inr old)
      from get_entry [OF got] key have old: "old = entry_at (env_codec env) (tcontent t) (hdr_number hdr)"
        by (simp add: entry_at_def)
      show thesis
      proof (cases "ser_b256 (env_codec env) (hdr_hash hdr)")
        case (Inl e)
        with step key got index_trees_available.ser_b256_returns [of "env_trees env" "env_codec env" tcontent "hdr_hash hdr"]
        show thesis by (cases old) (auto intro: fault gap simp: old [symmetric] height_indexed_def)
      next
        case (Inr w)
        with step key got show thesis
          by (cases old) (auto intro: gap found walk simp: old [symmetric] height_indexed_def block_indexed_def
              hash_is_def split: if_splits)
      qed
    qed
  qed
qed

lemma common_ancestor_spec:
  "\<exists>r. find_common_ancestor env p t h = Some r \<and> ancestor_result env tcontent t {blk. ancestor p h blk} r"
proof (induction "case get_block_by_hash p h of Inr (Some hdr) \<Rightarrow> Suc (unat (hdr_number hdr)) | _ \<Rightarrow> 0"
    arbitrary: h rule: less_induct)
  case less
  show ?case
  proof (cases "result_bind (map_err TransportError (get_block_by_hash p h)) (ok_or ParentBlockNotFound)")
    case (Inl e)
    then have "find_common_ancestor env p t h = Some (Inl e)" by (subst find_common_ancestor.simps) simp
    moreover from Inl have "\<not> ancestor p h blk" for blk by (auto simp: result_eqs elim: ancestorE)
    ultimately show ?thesis by (simp add: ancestor_result_def)
  next
    case (Inr hdr)
    then have block: "get_block_by_hash p h = Inr (Some hdr)" by (simp add: result_eqs)
    have below: "hdr_number blk < hdr_number hdr" if "ancestor p (hdr_parent_hash hdr) blk" for blk
      using ancestor_below [OF block that] by (simp add: word_less_nat_alt)
    have anc: "{blk. ancestor p h blk} = insert hdr {blk. ancestor p (hdr_parent_hash hdr) blk}"
      using ancestor_step [OF block] by blast
    from block show ?thesis
    proof (cases rule: common_ancestor_turn [where t = t])
      case found
      with below show ?thesis by (auto simp: anc ancestor_result_def dest: less_asym)
    next
      case walk
      have "\<exists>r. find_common_ancestor env p t (hdr_parent_hash hdr) = Some r \<and>
          ancestor_result env tcontent t {blk. ancestor p (hdr_parent_hash hdr) blk} r"
        by (rule less) (use block parent_number [of h hdr] in \<open>auto split: sum.splits option.splits\<close>)
      with walk ancestor_result_walk show ?thesis unfolding anc by fastforce
    next
      case (gap e)
      then have "\<not> block_indexed env tcontent t hdr" using block_indexed_height [of env tcontent t hdr] by blast
      with gap below show ?thesis unfolding anc ancestor_result_def by auto
    next
      case (fault e)
      then show ?thesis by (simp add: ancestor_result_def)
    qed
  qed
qed

end

section \<open>The modifications of a block\<close>

text \<open>Reference definition: what a log contributes, and a block's modifications in log order.\<close>

definition log_modification :: "('t, 'k, 'v, 's, 'w, 'e, 'm, 'x, 'h) indexer_env \<Rightarrow> executor_config \<Rightarrow> rpc_log \<Rightarrow>
    (u64 \<times> pending_modification) option" where
  "log_modification env config log = (case rl_log_index log of
       None \<Rightarrow> None
     | Some li \<Rightarrow> (case extract_pending_modifications env config log li of
           Inr (Some m) \<Rightarrow> Some (li, m)
         | _ \<Rightarrow> None))"

definition block_modifications :: "('t, 'k, 'v, 's, 'w, 'e, 'm, 'x, 'h) indexer_env \<Rightarrow> executor_config \<Rightarrow>
    rpc_log list \<Rightarrow> u64 \<Rightarrow> (u64 \<times> pending_modification) list" where
  "block_modifications env config logs n =
     sort_key fst (List.map_filter (log_modification env config) (filter (\<lambda>l. rl_block_number l = Some n) logs))"

definition log_position :: "rpc_log \<Rightarrow> u64 option \<times> u64 option" where
  "log_position log = (rl_block_number log, rl_log_index log)"

lemma bt_insert_insort: "k \<notin> fst ` set m \<Longrightarrow> bt_insert k v m = insort_key fst (k, v) m"
  by (induction m) auto

lemma sort_key_snoc: "f x \<notin> f ` set xs \<Longrightarrow> sort_key f (xs @ [x]) = insort_key f x (sort_key f xs)"
proof (induction xs)
  case (Cons y ys)
  then show ?case using insort_key_left_comm [of f x y "sort_key f ys"] by simp
qed simp

lemma map_filter_append: "List.map_filter f (xs @ ys) = List.map_filter f xs @ List.map_filter f ys"
  by (simp add: List.map_filter_def)

lemma map_filter_single: "List.map_filter f [x] = (case f x of None \<Rightarrow> [] | Some y \<Rightarrow> [y])"
  by (simp add: List.map_filter_def split: option.split)

lemma log_modification_Some:
  "log_modification env config l = Some (li, m) \<longleftrightarrow>
    rl_log_index l = Some li \<and> extract_pending_modifications env config l li = Inr (Some m)"
  by (auto simp: log_modification_def split: option.splits sum.splits)

lemma set_map_filter: "y \<in> set (List.map_filter f xs) \<longleftrightarrow> (\<exists>x \<in> set xs. f x = Some y)"
  by (force simp: List.map_filter_def)

lemma set_block_modifications:
  "(li, m) \<in> set (block_modifications env config logs n) \<longleftrightarrow>
    (\<exists>l \<in> set logs. rl_block_number l = Some n \<and> rl_log_index l = Some li \<and>
       extract_pending_modifications env config l li = Inr (Some m))"
  by (auto simp: block_modifications_def set_map_filter log_modification_Some)

lemma process_log_ok:
  assumes "process_log env config pending l = Inr pending'"
  obtains li n where "rl_log_index l = Some li" and "rl_block_number l = Some n"
    and "pending' = (case log_modification env config l of
        None \<Rightarrow> pending | Some e \<Rightarrow> bt_entry n [] (bt_insert (fst e) (snd e)) pending)"
proof -
  from assms obtain li n md where 1: "rl_log_index l = Some li" "rl_block_number l = Some n"
    "extract_pending_modifications env config l li = Inr md"
    and 2: "pending' = (case md of None \<Rightarrow> pending | Some m \<Rightarrow> bt_entry n [] (bt_insert li m) pending)"
    by (auto simp: process_log_def result_eqs)
  show thesis
    by (rule that [OF 1(1,2)]) (simp add: 2 log_modification_def 1 split: option.split)
qed

text \<open>The nested ordered maps of the log loop hold the reference lists.\<close>

lemma collected_modifications:
  assumes "result_fold (process_log env config) [] logs = Inr pending"
    and "distinct (map log_position logs)"
  shows "bt_ok pending \<and> (\<forall>n. map_of pending n =
    (if block_modifications env config logs n = [] then None else Some (block_modifications env config logs n)))"
  using assms
proof (induction logs arbitrary: pending rule: rev_induct)
  case Nil
  then show ?case by (simp add: block_modifications_def List.map_filter_def)
next
  case (snoc l logs)
  from snoc.prems(1) obtain p0 where p0: "result_fold (process_log env config) [] logs = Inr p0"
    and step: "process_log env config p0 l = Inr pending"
    by (auto simp: result_fold_append result_eqs)
  from snoc.IH [OF p0] snoc.prems(2) have ok: "bt_ok p0" and IH: "\<And>n. map_of p0 n =
      (if block_modifications env config logs n = [] then None else Some (block_modifications env config logs n))"
    by simp_all
  from step obtain li b where l: "rl_log_index l = Some li" "rl_block_number l = Some b"
    and pending: "pending = (case log_modification env config l of
      None \<Rightarrow> p0 | Some e \<Rightarrow> bt_entry b [] (bt_insert (fst e) (snd e)) p0)"
    by (rule process_log_ok)
  have other: "block_modifications env config (logs @ [l]) n = block_modifications env config logs n"
    if "n \<noteq> b \<or> log_modification env config l = None" for n
    using that l by (auto simp: block_modifications_def map_filter_append map_filter_single)
  show ?case
  proof (cases "log_modification env config l")
    case None
    with ok IH other pending show ?thesis by simp
  next
    case (Some e)
    then obtain m where e: "e = (li, m)"
      using l by (auto simp: log_modification_def split: sum.splits option.splits)
    have "li \<notin> fst ` set (block_modifications env config logs b)"
      using snoc.prems(2) l by (fastforce simp: set_block_modifications log_position_def image_iff)
    then have "block_modifications env config (logs @ [l]) b =
        bt_insert li m (block_modifications env config logs b)"
      using Some l e by (subst bt_insert_insort)
        (auto simp: block_modifications_def map_filter_append map_filter_single sort_key_snoc)
    moreover have "bt_insert li m xs \<noteq> []" for xs by (cases xs) auto
    moreover have "(case map_of p0 b of None \<Rightarrow> [] | Some v \<Rightarrow> v) = block_modifications env config logs b"
      by (simp add: IH)
    ultimately show ?thesis using ok other by (auto simp: pending Some e IH)
  qed
qed

section \<open>Writing a range\<close>

lemma find_rev_map_of: "distinct (map fst xs) \<Longrightarrow> find (\<lambda>x. fst x = n) (rev xs) = map_option (Pair n) (map_of xs n)"
proof (induction xs)
  case (Cons x xs)
  then have "map_of xs (fst x) = None" by (simp add: map_of_eq_None_iff)
  with Cons show ?case by (cases x) (auto simp: find_append split: option.split)
qed simp

lemma set_u64_range: "n \<in> set (u64_range a b) \<longleftrightarrow> a \<le> n \<and> n \<le> b"
proof
  assume "n \<in> set (u64_range a b)"
  then obtain i where i: "unat a \<le> i" "i \<le> unat b" "n = of_nat i" by (auto simp: u64_range_def)
  then have "unat n = i" using unsigned_less [of b, where 'a = nat] by (simp add: unat_of_nat)
  with i show "a \<le> n \<and> n \<le> b" by (simp add: word_le_nat_alt)
next
  assume "a \<le> n \<and> n \<le> b"
  then have "unat n \<in> {unat a ..< Suc (unat b)}" by (simp add: word_le_nat_alt less_Suc_eq_le)
  moreover have "n = of_nat (unat n)" by simp
  ultimately show "n \<in> set (u64_range a b)" unfolding u64_range_def by (metis image_eqI list.set_map set_upt)
qed

lemma find_rev_range:
  assumes "map bnh_number hs = u64_range a b"
  shows "find (\<lambda>h. bnh_number h = n) (rev hs) = None \<longleftrightarrow> \<not> (a \<le> n \<and> n \<le> b)"
proof -
  have "n \<in> bnh_number ` set hs \<longleftrightarrow> a \<le> n \<and> n \<le> b"
    using set_u64_range [of n a b] unfolding assms [symmetric] by simp
  then show ?thesis by (auto simp: find_None_iff)
qed

lemma u64_range_last: "a \<le> b \<Longrightarrow> u64_range a b \<noteq> [] \<and> last (u64_range a b) = b"
  by (simp add: u64_range_def word_le_nat_alt)

lemma block_hashes_numbers:
  "result_list (map (block_hash_at p) ns) = Inr hs \<Longrightarrow> map bnh_number hs = ns"
proof -
  assume "result_list (map (block_hash_at p) ns) = Inr hs"
  then have m: "map (block_hash_at p) ns = map Inr hs" by (simp add: result_list_Inr)
  have "map bnh_number hs = map (bnh_number \<circ> projr) (map Inr hs :: ('a indexer_error, _) result list)" by simp
  also have "\<dots> = map (bnh_number \<circ> projr \<circ> block_hash_at p) ns" by (simp add: m [symmetric])
  also have "\<dots> = ns"
  proof (rule map_idI)
    fix n assume "n \<in> set ns"
    then have "block_hash_at p n \<in> set (map Inr hs)" unfolding m [symmetric] by simp
    then show "(bnh_number \<circ> projr \<circ> block_hash_at p) n = n" by (auto simp: block_hash_at_def result_eqs)
  qed
  finally show ?thesis .
qed

text \<open>The last indexed block, as the tree holds it.\<close>

definition last_indexed_is :: "('t, 'k, 'v, 's, 'w, 'e, 'm, 'x, 'h) indexer_env \<Rightarrow> ('t \<Rightarrow> 'k \<rightharpoonup> 'v) \<Rightarrow>
    ('t, 's) indexer \<Rightarrow> block_num_hash \<Rightarrow> bool" where
  "last_indexed_is env tcontent ix b \<longleftrightarrow>
     (\<exists>v. tcontent (latest_block_tree ix) (empty_key (env_codec env)) = Some v \<and> de_block_num_hash (env_codec env) v = Inr b)"

context indexed
begin

lemma write_pending_spec:
  assumes "write_pending_modifications env pending ix = Some (Inr u, ix')" and "bt_ok pending"
  shows "\<exists>t. ix' = ix\<lparr>pending_modifications_tree := t\<rparr> \<and>
    (\<forall>n. view_mods (env_codec env) (view_of env tcontent ix') n = (case map_of pending n of
        None \<Rightarrow> view_mods (env_codec env) (view_of env tcontent ix) n | Some lm \<Rightarrow> bt_values lm)) \<and>
    (\<forall>n. iv_pending (view_of env tcontent ix') n = None \<longleftrightarrow>
       map_of pending n = None \<and> iv_pending (view_of env tcontent ix) n = None) \<and>
    (decodable (env_codec env) (view_of env tcontent ix) \<longrightarrow> decodable (env_codec env) (view_of env tcontent ix'))"
proof -
  from assms(1) obtain batch where b: "result_list (map (pending_entry (env_codec env)) pending) = Inr batch"
    by (auto simp: write_pending_modifications_def split: sum.splits)
  obtain r t where w: "tree_apply_batch (env_trees env) (pending_modifications_tree ix) batch = (r, t)" by fastforce
  with assms(1) b have r: "r = Inr u" and ix': "ix' = ix\<lparr>pending_modifications_tree := t\<rparr>"
    by (auto simp: write_pending_modifications_def map_err_eq_Inr)
  have e: "entry_at (env_codec env) (tcontent t) n = (case map_of pending n of
      None \<Rightarrow> entry_at (env_codec env) (tcontent (pending_modifications_tree ix)) n
    | Some lm \<Rightarrow> Some (snd (projr (pending_entry (env_codec env) (n, lm)))))" for n
    unfolding batch_entries [OF w [unfolded r]]
    by (subst entry_at_batch [OF b, of fst])
      (auto simp: pending_entry_def result_eqs find_rev_map_of [OF bt_ok_distinct [OF assms(2)]] split: option.splits)
  have "de_mods (env_codec env) (snd (projr (pending_entry (env_codec env) (n, lm)))) = Inr (bt_values lm)"
    if "map_of pending n = Some lm" for n lm
  proof -
    from map_of_SomeD [OF that] b have "pending_entry (env_codec env) (n, lm) \<in> Inr ` set batch"
      unfolding result_list_Inr by (metis image_eqI list.set_map)
    then show ?thesis by (auto simp: pending_entry_def result_eqs mods_round_trip)
  qed
  with e show ?thesis
    by (auto simp: ix' view_mods_def decodable_def split: option.splits)
qed

lemma write_hashes_spec:
  assumes "write_block_num_hash_batch env hs ix = Some (Inr u, ix')"
    and "map bnh_number hs = u64_range a b" and "block_keys (env_codec env) (tcontent (block_hash_tree ix))"
  shows "\<exists>t. ix' = ix\<lparr>block_hash_tree := t\<rparr> \<and> block_keys (env_codec env) (tcontent t) \<and>
    (\<forall>n. \<not> (a \<le> n \<and> n \<le> b) \<longrightarrow> iv_hashes (view_of env tcontent ix') n = iv_hashes (view_of env tcontent ix) n) \<and>
    (\<forall>n. a \<le> n \<and> n \<le> b \<longrightarrow> (\<exists>h \<in> set hs. bnh_number h = n \<and>
       hash_is (env_codec env) (tcontent t) n (bnh_hash h)))"
proof -
  from assms(1) obtain batch where w: "result_list (map (block_num_hash_entry (env_codec env)) hs) = Inr batch"
    by (auto simp: write_block_num_hash_batch_def split: sum.splits)
  obtain r t where t: "tree_apply_batch (env_trees env) (block_hash_tree ix) batch = (r, t)" by fastforce
  with assms(1) w have r: "r = Inr u" and ix': "ix' = ix\<lparr>block_hash_tree := t\<rparr>"
    by (auto simp: write_block_num_hash_batch_def map_err_eq_Inr)
  have key: "ser_u64 (env_codec env) (bnh_number h) = Inr (fst e)" if "block_num_hash_entry (env_codec env) h = Inr e" for h e
    using that by (auto simp: block_num_hash_entry_def result_eqs)
  have e: "entry_at (env_codec env) (tcontent t) n = (case find (\<lambda>h. bnh_number h = n) (rev hs) of
      None \<Rightarrow> entry_at (env_codec env) (tcontent (block_hash_tree ix)) n
    | Some h \<Rightarrow> Some (snd (projr (block_num_hash_entry (env_codec env) h))))" for n
    unfolding batch_entries [OF t [unfolded r]] by (rule entry_at_batch [OF w key])
  have "\<exists>h \<in> set hs. bnh_number h = n \<and> hash_is (env_codec env) (tcontent t) n (bnh_hash h)"
    if "a \<le> n \<and> n \<le> b" for n
  proof -
    from that find_rev_range [OF assms(2), of n] obtain h where f: "find (\<lambda>h. bnh_number h = n) (rev hs) = Some h" by auto
    then have h: "h \<in> set hs" "bnh_number h = n" by (auto simp: find_Some_iff) (metis nth_mem set_rev length_rev)
    from h(1) w have "block_num_hash_entry (env_codec env) h \<in> Inr ` set batch"
      unfolding result_list_Inr by (metis image_eqI list.set_map)
    with h e [of n] f show ?thesis by (auto simp: hash_is_def block_num_hash_entry_def result_eqs)
  qed
  moreover have "block_keys (env_codec env) (tcontent t)"
    unfolding batch_entries [OF t [unfolded r]] by (rule block_keys_batch [OF w key assms(3)])
  moreover have "\<not> (a \<le> n \<and> n \<le> b) \<longrightarrow> entry_at (env_codec env) (tcontent t) n =
      entry_at (env_codec env) (tcontent (block_hash_tree ix)) n" for n
    using find_rev_range [OF assms(2), of n] by (auto simp: e split: option.split)
  ultimately show ?thesis by (intro exI [of _ t]) (simp add: ix')
qed

lemma insert_last_spec:
  assumes "insert_last_indexed_block_num_hash env b ix = Some (Inr u, ix')"
  shows "\<exists>t. ix' = ix\<lparr>latest_block_tree := t\<rparr> \<and> last_indexed_is env tcontent ix' b"
proof -
  from assms obtain v where v: "ser_block_num_hash (env_codec env) b = Inr v"
    by (auto simp: insert_last_indexed_block_num_hash_def split: sum.splits)
  obtain r t where t: "tree_insert (env_trees env) (latest_block_tree ix) (empty_key (env_codec env)) v = (r, t)" by fastforce
  with assms v obtain old where "r = Inr old" "ix' = ix\<lparr>latest_block_tree := t\<rparr>"
    by (cases r) (auto simp: insert_last_indexed_block_num_hash_def)
  with insert_entry [of "latest_block_tree ix" _ v old t] t num_hash_round_trip [OF v] show ?thesis
    by (intro exI [of _ t]) (simp add: last_indexed_is_def)
qed

end

section \<open>A range of blocks\<close>

text \<open>What becomes of the index when the blocks up to a bound are moved to the store; block 0 alone is
  not moved.\<close>

definition view_move :: "u64 \<Rightarrow> 'v index_view \<Rightarrow> 'v index_view" where
  "view_move upper_bound w = (if upper_bound = 0 then w else view_prune_to (upper_bound + 1) w)"

definition moved_mods :: "('k, 'v, 'e) index_codec \<Rightarrow> u64 \<Rightarrow> 'v index_view \<Rightarrow> pending_modification list" where
  "moved_mods c upper_bound w = (if upper_bound = 0 then [] else mods_below c w (upper_bound + 1))"

text \<open>The index \<open>w'\<close> is \<open>w\<close> with the blocks \<open>a..b\<close> of the node and the modifications of \<open>logs\<close>.\<close>

definition view_indexes :: "('t, 'k, 'v, 's, 'w, 'e, 'm, 'x, 'h) indexer_env \<Rightarrow> executor_config \<Rightarrow> 'e rpc \<Rightarrow>
    rpc_log list \<Rightarrow> u64 \<Rightarrow> u64 \<Rightarrow> 'v index_view \<Rightarrow> 'v index_view \<Rightarrow> bool" where
  "view_indexes env config p logs a b w w' \<longleftrightarrow>
     (\<forall>n. view_mods (env_codec env) w' n =
        (if block_modifications env config logs n = [] then view_mods (env_codec env) w n
         else map snd (block_modifications env config logs n))) \<and>
     (\<forall>n. \<not> (a \<le> n \<and> n \<le> b) \<longrightarrow> iv_hashes w' n = iv_hashes w n) \<and>
     (\<forall>n. a \<le> n \<and> n \<le> b \<longrightarrow> (\<exists>hdr v. get_block_by_number p (TagNumber n) = Inr (Some hdr) \<and>
        ser_b256 (env_codec env) (hdr_hash hdr) = Inr v \<and> iv_hashes w' n = Some v))"

lemma block_hash_header:
  assumes "result_list (map (block_hash_at p) ns) = Inr hs" and "h \<in> set hs"
  shows "\<exists>hdr. get_block_by_number p (TagNumber (bnh_number h)) = Inr (Some hdr) \<and> bnh_hash h = hdr_hash hdr"
proof -
  from assms have "Inr h \<in> set (map (block_hash_at p) ns)" by (simp add: result_list_Inr)
  then obtain n where "block_hash_at p n = Inr h" by auto
  then show ?thesis by (auto simp: block_hash_at_def result_eqs)
qed

lemma same_rest_store: "same_rest ix ix' \<Longrightarrow> same_rest (ix\<lparr>ix_store := s\<rparr>) (ix'\<lparr>ix_store := s\<rparr>)"
  by (cases ix; cases ix') (simp add: same_rest_def)

lemma same_rest_latest:
  "same_rest ix ix' \<Longrightarrow> same_rest (ix\<lparr>latest_block_tree := t\<rparr>) (ix'\<lparr>latest_block_tree := t\<rparr>)"
  by (cases ix; cases ix') (simp add: same_rest_def)

lemma ix_bind_ok:
  "ix_bind m f = Some (Inr b, s') \<longleftrightarrow> (\<exists>a s. m = Some (Inr a, s) \<and> f a s = Some (Inr b, s'))"
  by (auto simp: ix_bind_def split: option.splits sum.splits prod.splits)

lemma ix_result_ok: "ix_result r s = Some (Inr a, s') \<longleftrightarrow> r = Inr a \<and> s' = s"
  by (auto simp: ix_result_def)

locale indexed_store = indexed env tcontent +
    store: assertion_db_available "env_store_ops env" "env_store_bincode env" content
  for env :: "('t, 'k::linorder, 'v, 's, 'w, 'e, 'm, 'x, 'h) indexer_env" and tcontent and content +
  assumes store_alone: "env_store_interference env = (\<lambda>_ _ s. s)"
    and store_iter: "mset (env_store_iter env g) = mset g"
begin

lemma move_spec:
  assumes "block_keys (env_codec env) (tcontent (block_hash_tree ix))"
    and "\<And>a. readable (env_store_bincode env) (content (ix_store ix)) a"
  shows "\<exists>r ix'. move_pending_modifications_to_store env ub ix = Some (r, ix') \<and>
    (\<forall>u. r = Inr u \<longrightarrow> view_of env tcontent ix' = view_move ub (view_of env tcontent ix) \<and>
       stored (env_store_bincode env) (content (ix_store ix')) =
         fold abstract_apply (moved_mods (env_codec env) ub (view_of env tcontent ix))
           (stored (env_store_bincode env) (content (ix_store ix))) \<and>
       (\<forall>a. readable (env_store_bincode env) (content (ix_store ix')) a) \<and>
       block_keys (env_codec env) (tcontent (block_hash_tree ix')) \<and>
       same_rest (ix\<lparr>ix_store := ix_store ix'\<rparr>) ix') \<and>
    (index_trees_available (env_trees env) (env_codec env) tcontent \<and>
      decodable (env_codec env) (view_of env tcontent ix) \<longrightarrow> r = Inr ())"
proof (cases "ub = 0")
  case True
  with assms show ?thesis
    by (auto simp: move_pending_modifications_to_store_def view_move_def moved_mods_def)
next
  case False
  let ?mods = "mods_below (env_codec env) (view_of env tcontent ix) (ub + 1)"
  from prune_to_spec [OF assms(1), of "ub + 1"] obtain r ix1
    where p: "prune_to env (ub + 1) ix = Some (r, ix1)" and rest: "same_rest ix ix1"
      and ok: "\<And>res. r = Inr res \<Longrightarrow> res = ?mods \<and>
        view_of env tcontent ix1 = view_prune_to (ub + 1) (view_of env tcontent ix) \<and>
        block_keys (env_codec env) (tcontent (block_hash_tree ix1))"
      and av: "index_trees_available (env_trees env) (env_codec env) tcontent \<and>
        decodable (env_codec env) (view_of env tcontent ix) \<longrightarrow> (\<exists>res. r = Inr res)" by blast
  have st: "ix_store ix1 = ix_store ix" using same_rest_sel [OF rest] by simp
  show ?thesis
  proof (cases r)
    case (Inl e)
    with p av False show ?thesis by (simp add: move_pending_modifications_to_store_def ix_bind_def)
  next
    case (Inr res)
    from batch_refines [OF store.assertion_db_available_axioms assms(2) store_iter, of ?mods] obtain s'
      where s': "apply_pending_modifications (env_store_ops env) (env_store_bincode env) (\<lambda>_ _ d. d)
          (env_store_iter env) ?mods (ix_store ix) = Some (Inr (), s')"
        "stored (env_store_bincode env) (content s') =
           fold abstract_apply ?mods (stored (env_store_bincode env) (content (ix_store ix)))"
        "\<And>a. readable (env_store_bincode env) (content s') a" by blast
    have m: "move_pending_modifications_to_store env ub ix =
        Some (Inr (), if ?mods = [] then ix1 else ix1\<lparr>ix_store := s'\<rparr>)"
      using p ok [OF Inr] Inr s'(1) False st
      by (simp add: move_pending_modifications_to_store_def ix_bind_def store_alone)
    have "same_rest (ix\<lparr>ix_store := s'\<rparr>) (ix1\<lparr>ix_store := s'\<rparr>)"
      by (rule same_rest_store [OF rest])
    moreover have "view_of env tcontent (ix1\<lparr>ix_store := s'\<rparr>) = view_of env tcontent ix1" by (simp add: view_of_def)
    moreover have "same_rest (ix\<lparr>ix_store := ix_store ix1\<rparr>) ix1" using rest by (simp add: st)
    ultimately show ?thesis
      using ok [OF Inr] s'(2,3) assms(2) st False
      by (intro exI [of _ "Inr ()"] exI [of _ "if ?mods = [] then ix1 else ix1\<lparr>ix_store := s'\<rparr>"] conjI m)
        (auto simp: view_move_def moved_mods_def)
  qed
qed

text \<open>What the writes of a range leave in the trees.\<close>

lemma index_range_writes:
  assumes "result_fold (process_log env config) [] logs = Inr pending" and "distinct (map log_position logs)"
    and "write_pending_modifications env pending ix = Some (Inr (), ix1)"
    and "result_list (map (block_hash_at p) (u64_range a b)) = Inr hs" and "a \<le> b"
    and "(if hs = [] then Some (Inr (), ix1) else insert_last_indexed_block_num_hash env (last hs) ix1) = Some (Inr (), ix2)"
    and "write_block_num_hash_batch env hs ix2 = Some (Inr (), ix3)"
    and "block_keys (env_codec env) (tcontent (block_hash_tree ix))"
  shows "\<exists>t1 t2 t3 hdr. ix3 = ix\<lparr>pending_modifications_tree := t1, latest_block_tree := t2, block_hash_tree := t3\<rparr> \<and>
    get_block_by_number p (TagNumber b) = Inr (Some hdr) \<and>
    last_indexed_is env tcontent ix3 \<lparr>bnh_number = b, bnh_hash = hdr_hash hdr\<rparr> \<and>
    view_indexes env config p logs a b (view_of env tcontent ix) (view_of env tcontent ix3) \<and>
    block_keys (env_codec env) (tcontent (block_hash_tree ix3)) \<and>
    (decodable (env_codec env) (view_of env tcontent ix) \<longrightarrow> decodable (env_codec env) (view_of env tcontent ix3))"
proof -
  from collected_modifications [OF assms(1,2)] have ok: "bt_ok pending"
    and coll: "\<And>n. map_of pending n = (if block_modifications env config logs n = [] then None
      else Some (block_modifications env config logs n))" by simp_all
  from write_pending_spec [OF assms(3) ok] obtain t1 where ix1: "ix1 = ix\<lparr>pending_modifications_tree := t1\<rparr>"
    and mods: "\<And>n. view_mods (env_codec env) (view_of env tcontent ix1) n = (case map_of pending n of
        None \<Rightarrow> view_mods (env_codec env) (view_of env tcontent ix) n | Some lm \<Rightarrow> bt_values lm)"
    and dec: "decodable (env_codec env) (view_of env tcontent ix) \<Longrightarrow> decodable (env_codec env) (view_of env tcontent ix1)"
    by blast
  note nums = block_hashes_numbers [OF assms(4)]
  have "hs \<noteq> []" and lst: "bnh_number (last hs) = b"
    using u64_range_last [OF assms(5)] nums last_map [of hs bnh_number] by force+
  with assms(6) insert_last_spec [of "last hs" ix1] obtain t2 where ix2: "ix2 = ix1\<lparr>latest_block_tree := t2\<rparr>"
    and last2: "last_indexed_is env tcontent ix2 (last hs)" by auto
  have "map bnh_number hs = u64_range a b" "block_keys (env_codec env) (tcontent (block_hash_tree ix2))"
    using nums assms(8) by (simp_all add: ix2 ix1)
  from write_hashes_spec [OF assms(7) this] obtain t3 where ix3: "ix3 = ix2\<lparr>block_hash_tree := t3\<rparr>"
    and bk3: "block_keys (env_codec env) (tcontent (block_hash_tree ix3))"
    and outside: "\<And>n. \<not> (a \<le> n \<and> n \<le> b) \<Longrightarrow>
      iv_hashes (view_of env tcontent ix3) n = iv_hashes (view_of env tcontent ix2) n"
    and inside: "\<And>n. a \<le> n \<and> n \<le> b \<Longrightarrow> \<exists>h \<in> set hs. bnh_number h = n \<and>
      hash_is (env_codec env) (tcontent t3) n (bnh_hash h)" by auto
  have "view_mods (env_codec env) (view_of env tcontent ix3) n = (if block_modifications env config logs n = []
      then view_mods (env_codec env) (view_of env tcontent ix) n else map snd (block_modifications env config logs n))" for n
    using mods [of n] by (simp add: coll ix3 ix2 view_mods_def bt_values_def)
  moreover have "\<exists>hdr v. get_block_by_number p (TagNumber n) = Inr (Some hdr) \<and>
      ser_b256 (env_codec env) (hdr_hash hdr) = Inr v \<and> iv_hashes (view_of env tcontent ix3) n = Some v" if "a \<le> n \<and> n \<le> b" for n
    using inside [OF that] block_hash_header [OF assms(4)] by (fastforce simp: hash_is_def ix3 split: option.splits)
  ultimately have "view_indexes env config p logs a b (view_of env tcontent ix) (view_of env tcontent ix3)"
    unfolding view_indexes_def using outside by (simp add: ix2 ix1)
  moreover from block_hash_header [OF assms(4) last_in_set [OF \<open>hs \<noteq> []\<close>]] lst obtain hdr where
    "get_block_by_number p (TagNumber b) = Inr (Some hdr)" "last hs = \<lparr>bnh_number = b, bnh_hash = hdr_hash hdr\<rparr>"
    by (cases "last hs") auto
  moreover have "last_indexed_is env tcontent ix3 (last hs)"
    using last2 by (simp add: last_indexed_is_def ix3)
  moreover have "decodable (env_codec env) (view_of env tcontent ix3)" if "decodable (env_codec env) (view_of env tcontent ix)"
    using dec [OF that] unfolding decodable_def by (simp add: ix3 ix2)
  ultimately show ?thesis using bk3 by (auto simp: ix3 ix2 ix1)
qed

lemma index_range_ok:
  assumes "index_range env p a b ix = Some (Inr u, ix')" and "a \<le> b"
    and "block_keys (env_codec env) (tcontent (block_hash_tree ix))"
    and "\<And>x. readable (env_store_bincode env) (content (ix_store ix)) x"
    and "\<And>logs. get_logs_in p (state_oracle ix) a b = Inr logs \<Longrightarrow> distinct (map log_position logs)"
  shows "\<exists>logs tagged hdr w. get_logs_in p (state_oracle ix) a b = Inr logs \<and>
    get_block_by_number p (block_tag_into (await_tag ix)) = Inr (Some tagged) \<and>
    get_block_by_number p (TagNumber b) = Inr (Some hdr) \<and>
    view_indexes env (ix_executor_config ix) p logs a b (view_of env tcontent ix) w \<and>
    view_of env tcontent ix' = view_move (hdr_number tagged) w \<and>
    stored (env_store_bincode env) (content (ix_store ix')) =
      fold abstract_apply (moved_mods (env_codec env) (hdr_number tagged) w)
        (stored (env_store_bincode env) (content (ix_store ix))) \<and>
    (\<forall>x. readable (env_store_bincode env) (content (ix_store ix')) x) \<and>
    block_keys (env_codec env) (tcontent (block_hash_tree ix')) \<and>
    last_indexed_is env tcontent ix' \<lparr>bnh_number = b, bnh_hash = hdr_hash hdr\<rparr> \<and>
    state_oracle ix' = state_oracle ix \<and> ix_executor_config ix' = ix_executor_config ix \<and>
    await_tag ix' = await_tag ix \<and>
    (decodable (env_codec env) (view_of env tcontent ix) \<longrightarrow> decodable (env_codec env) (view_of env tcontent ix'))"
proof -
  from assms(1) obtain logs pending hs tagged ix1 ix2 ix3 where
    logs: "get_logs_in p (state_oracle ix) a b = Inr logs"
    and pend: "result_fold (process_log env (ix_executor_config ix)) [] logs = Inr pending"
    and w1: "write_pending_modifications env pending ix = Some (Inr (), ix1)"
    and hs: "result_list (map (block_hash_at p) (u64_range a b)) = Inr hs"
    and w2: "(if hs = [] then Some (Inr (), ix1) else insert_last_indexed_block_num_hash env (last hs) ix1) = Some (Inr (), ix2)"
    and w3: "write_block_num_hash_batch env hs ix2 = Some (Inr (), ix3)"
    and tag: "get_block_by_number p (block_tag_into (await_tag ix3)) = Inr (Some tagged)"
    and mv: "move_pending_modifications_to_store env (hdr_number tagged) ix3 = Some (Inr u, ix')"
    unfolding index_range_def ix_bind_ok ix_result_ok by (auto simp: result_eqs)
  from index_range_writes [OF pend assms(5) [OF logs] w1 hs assms(2) w2 w3 assms(3)] obtain t1 t2 t3 hdr
    where ix3: "ix3 = ix\<lparr>pending_modifications_tree := t1, latest_block_tree := t2, block_hash_tree := t3\<rparr>"
    and hdr: "get_block_by_number p (TagNumber b) = Inr (Some hdr)"
    and last3: "last_indexed_is env tcontent ix3 \<lparr>bnh_number = b, bnh_hash = hdr_hash hdr\<rparr>"
    and idx: "view_indexes env (ix_executor_config ix) p logs a b (view_of env tcontent ix) (view_of env tcontent ix3)"
    and bk3: "block_keys (env_codec env) (tcontent (block_hash_tree ix3))"
    and dec: "decodable (env_codec env) (view_of env tcontent ix) \<longrightarrow> decodable (env_codec env) (view_of env tcontent ix3)"
    by blast
  let ?w = "view_of env tcontent ix3"
  have "\<And>x. readable (env_store_bincode env) (content (ix_store ix3)) x" using assms(4) by (simp add: ix3)
  from move_spec [OF bk3 this, of "hdr_number tagged"] mv
  have fin: "view_of env tcontent ix' = view_move (hdr_number tagged) ?w"
    "stored (env_store_bincode env) (content (ix_store ix')) =
       fold abstract_apply (moved_mods (env_codec env) (hdr_number tagged) ?w)
         (stored (env_store_bincode env) (content (ix_store ix)))"
    "\<forall>x. readable (env_store_bincode env) (content (ix_store ix')) x"
    "block_keys (env_codec env) (tcontent (block_hash_tree ix'))"
    "same_rest (ix3\<lparr>ix_store := ix_store ix'\<rparr>) ix'" by (auto simp: ix3)
  note rest = same_rest_sel [OF fin(5)]
  have "last_indexed_is env tcontent ix' \<lparr>bnh_number = b, bnh_hash = hdr_hash hdr\<rparr>"
    using last3 rest by (simp add: last_indexed_is_def)
  moreover have "decodable (env_codec env) (view_of env tcontent ix')"
    if "decodable (env_codec env) (view_of env tcontent ix)"
    using dec that unfolding fin(1) decodable_def by (auto simp: view_move_def split: if_splits)
  moreover have "await_tag ix' = await_tag ix" "state_oracle ix' = state_oracle ix"
    "ix_executor_config ix' = ix_executor_config ix" "await_tag ix3 = await_tag ix"
    using rest by (simp_all add: ix3)
  ultimately show ?thesis using logs tag hdr idx fin by auto
qed

end

end
