(* ===== verification/ChainSync.thy ===== *)
theory ChainSync
  imports Syncing
begin

text \<open>
  Following a chain: a sync is split into ranges, and after every successful sync the store holds exactly
  the modifications of the chain's blocks up to a bound the awaited block allows, in chain order,
  while the modifications of the later blocks wait in the index; a reorg is undone first.
\<close>

section \<open>Splitting a sync into ranges\<close>

text \<open>Reference definition: the ranges of at most \<open>m\<close> blocks from \<open>a\<close> to \<open>b\<close>, indexed one after the other.\<close>

function range_chunks :: "nat \<Rightarrow> nat \<Rightarrow> nat \<Rightarrow> (nat \<times> nat) list" where
  "range_chunks m a b =
     (if m = 0 \<or> b < a then [] else (a, min (a + m - 1) b) # range_chunks m (a + m) b)"
  by pat_completeness auto
termination by (relation "measure (\<lambda>(m, a, b). Suc b - a)") auto

declare range_chunks.simps [simp del]

primrec index_ranges ::
  "('t, 'k, 'v, 's, 'w, 'e, 'm, 'x, 'h) indexer_env \<Rightarrow> (nat \<Rightarrow> 'e rpc) \<Rightarrow> nat \<Rightarrow> (nat \<times> nat) list \<Rightarrow>
   ('t, 's) indexer \<Rightarrow> ('e, unit, ('t, 's) indexer) step_result" where
  "index_ranges env node k [] ix = Some (Inr (), ix)"
| "index_ranges env node k (r # rs) ix =
     ix_bind (index_range env (node k) (of_nat (fst r)) (of_nat (snd r)) ix)
       (\<lambda>_ ix'. index_ranges env node (Suc k) rs ix')"

lemma range_chunks_cover:
  "0 < m \<Longrightarrow> concat (map (\<lambda>r. [fst r ..< Suc (snd r)]) (range_chunks m a b)) = [a ..< Suc b]"
proof (induction m a b rule: range_chunks.induct)
  case (1 m a b)
  show ?case
  proof (cases "b < a")
    case True
    then show ?thesis by (simp add: range_chunks.simps)
  next
    case False
    then have IH: "concat (map (\<lambda>r. [fst r ..< Suc (snd r)]) (range_chunks m (a + m) b)) = [a + m ..< Suc b]"
      using 1 by simp
    show ?thesis
    proof (cases "a + m \<le> b")
      case True
      then have "[a ..< Suc b] = [a ..< a + m] @ [a + m ..< Suc b]" using upt_add_eq_append [of a "a + m" "Suc b - (a + m)"] by simp
      moreover obtain m' where "m = Suc m'" using 1(2) by (cases m) auto
      ultimately show ?thesis using True False IH by (subst range_chunks.simps) (simp add: min_def)
    next
      case nle: False
      then have "range_chunks m (a + m) b = []" by (subst range_chunks.simps) simp
      moreover have "min (a + m - 1) b = b" using nle by simp
      ultimately show ?thesis using 1(2) False by (subst range_chunks.simps) simp
    qed
  qed
qed

lemma range_chunks_bounds:
  "r \<in> set (range_chunks m a b) \<Longrightarrow> fst r \<le> snd r \<and> snd r < fst r + m \<and> a \<le> fst r \<and> snd r \<le> b"
proof (induction m a b rule: range_chunks.induct)
  case (1 m a b)
  then show ?case by (subst (asm) (2) range_chunks.simps) (auto split: if_splits)
qed

lemma unat_next: "unat (a :: u64) + m < 2 ^ 64 \<Longrightarrow> m = unat n \<Longrightarrow> unat (a + n) = unat a + m"
  by (simp add: unat_word_ariths)

lemma range_bounds:
  assumes "(cur :: u64) \<le> upd" and "0 < max_blocks" and "unat upd + unat max_blocks < 2 ^ 64"
  shows "unat (cur + max_blocks) = unat cur + unat max_blocks"
    and "unat (min (cur + max_blocks - 1) upd) = min (unat cur + unat max_blocks - 1) (unat upd)"
proof -
  show sum: "unat (cur + max_blocks) = unat cur + unat max_blocks"
    using assms by (intro unat_next) (auto simp: word_le_nat_alt)
  have "0 < unat max_blocks" using assms(2) by (simp add: word_less_nat_alt)
  with sum have "unat (cur + max_blocks - 1) = unat cur + unat max_blocks - 1"
    by (metis add_gr_0 less_irrefl unat_0 unat_minus_one)
  then show "unat (min (cur + max_blocks - 1) upd) = min (unat cur + unat max_blocks - 1) (unat upd)"
    by (simp add: min_def word_le_nat_alt)
qed

lemma sync_loop_ranges:
  assumes "0 < max_blocks" and "unat upd + unat max_blocks < 2 ^ 64"
  shows "sync_loop env node k upd max_blocks cur ix =
    index_ranges env node k (range_chunks (unat max_blocks) (unat cur) (unat upd)) ix"
proof (induction "Suc (unat upd) - unat cur" arbitrary: k cur ix rule: less_induct)
  case less
  have m: "0 < unat max_blocks" using assms(1) by (simp add: word_less_nat_alt)
  show ?case
  proof (cases "cur \<le> upd")
    case False
    then show ?thesis
      by (subst sync_loop.simps, subst range_chunks.simps) (simp add: word_le_nat_alt)
  next
    case True
    then have le: "unat cur \<le> unat upd" by (simp add: word_le_nat_alt)
    let ?to = "min (cur + max_blocks - 1) upd"
    note sum = range_bounds(1) [OF True assms] and to = range_bounds(2) [OF True assms]
    have chunk: "range_chunks (unat max_blocks) (unat cur) (unat upd) =
        (unat cur, unat ?to) # range_chunks (unat max_blocks) (unat cur + unat max_blocks) (unat upd)"
      using m le to by (subst range_chunks.simps) simp
    have rest: "(if ?to = upd then Some (Inr (), ix') else sync_loop env node (Suc k) upd max_blocks (?to + 1) ix') =
        index_ranges env node (Suc k) (range_chunks (unat max_blocks) (unat cur + unat max_blocks) (unat upd)) ix'" for ix'
    proof (cases "?to = upd")
      case True
      with to have "unat upd \<le> unat cur + unat max_blocks - 1" by (metis min.cobounded1)
      with m have "unat upd < unat cur + unat max_blocks" by simp
      then have "range_chunks (unat max_blocks) (unat cur + unat max_blocks) (unat upd) = []"
        by (subst range_chunks.simps) simp
      with True show ?thesis by simp
    next
      case False
      then have "?to = cur + max_blocks - 1" by (auto simp: min_def)
      then have n: "?to + 1 = cur + max_blocks" by simp
      show ?thesis
        using less.hyps [of "cur + max_blocks" "Suc k" ix'] False m le by (simp add: n sum)
    qed
    show ?thesis
      by (subst sync_loop.simps, simp only: True if_True Let_def rest)
        (simp add: chunk ix_bind_def split: option.split sum.split prod.split)
  qed
qed

section \<open>What the store knows of the chain\<close>

text \<open>The node serves the logs of one chain.\<close>

definition log_between :: "u64 \<Rightarrow> u64 \<Rightarrow> rpc_log \<Rightarrow> bool" where
  "log_between a b l \<longleftrightarrow> (\<exists>n. rl_block_number l = Some n \<and> a \<le> n \<and> n \<le> b)"

definition serves_logs :: "'e rpc \<Rightarrow> address \<Rightarrow> rpc_log list \<Rightarrow> bool" where
  "serves_logs p oracle chain_logs \<longleftrightarrow>
     (\<forall>a b logs. get_logs_in p oracle a b = Inr logs \<longrightarrow> logs = filter (log_between a b) chain_logs)"

text \<open>The modifications of the chain below a block, in chain order.\<close>

definition chain_mods :: "('t, 'k, 'v, 's, 'w, 'e, 'm, 'x, 'h) indexer_env \<Rightarrow> executor_config \<Rightarrow>
    rpc_log list \<Rightarrow> u64 \<Rightarrow> pending_modification list" where
  "chain_mods env config chain_logs bound =
     concat (map (\<lambda>n. map snd (block_modifications env config chain_logs n)) (sorted_list_of_set {n. n < bound}))"

text \<open>The block after the last indexed one; 0 when none is.\<close>

definition head_is :: "('t, 'k, 'v, 's, 'w, 'e, 'm, 'x, 'h) indexer_env \<Rightarrow> ('t \<Rightarrow> 'k \<rightharpoonup> 'v) \<Rightarrow>
    ('t, 's) indexer \<Rightarrow> u64 \<Rightarrow> bool" where
  "head_is env tcontent ix head \<longleftrightarrow> (case tcontent (latest_block_tree ix) (empty_key (env_codec env)) of
       None \<Rightarrow> head = 0
     | Some v \<Rightarrow> (case de_block_num_hash (env_codec env) v of Inl _ \<Rightarrow> False | Inr b \<Rightarrow> head = bnh_number b + 1))"

text \<open>The blocks below \<open>head\<close> are indexed; those below \<open>moved\<close> are in the store, the others wait in the index.\<close>

definition follows_chain :: "('t, 'k, 'v, 's, 'w, 'e, 'm, 'x, 'h) indexer_env \<Rightarrow> ('t \<Rightarrow> 'k \<rightharpoonup> 'v) \<Rightarrow>
    ('s \<Rightarrow> bytes \<Rightarrow> 'w option) \<Rightarrow> rpc_log list \<Rightarrow> abstract_store \<Rightarrow> u64 \<Rightarrow> u64 \<Rightarrow> ('t, 's) indexer \<Rightarrow> bool" where
  "follows_chain env tcontent content chain_logs st moved head ix \<longleftrightarrow>
     moved \<le> head \<and> head_is env tcontent ix head \<and>
     (\<forall>n. iv_hashes (view_of env tcontent ix) n \<noteq> None \<longleftrightarrow> moved \<le> n \<and> n < head) \<and>
     (\<forall>n. view_mods (env_codec env) (view_of env tcontent ix) n =
        (if moved \<le> n \<and> n < head then map snd (block_modifications env (ix_executor_config ix) chain_logs n) else [])) \<and>
     stored (env_store_bincode env) (content (ix_store ix)) =
       fold abstract_apply (chain_mods env (ix_executor_config ix) chain_logs moved) st \<and>
     block_keys (env_codec env) (tcontent (block_hash_tree ix)) \<and>
     (\<forall>a. readable (env_store_bincode env) (content (ix_store ix)) a)"

lemma block_modifications_between:
  "block_modifications env config (filter (log_between a b) logs) n =
     (if a \<le> n \<and> n \<le> b then block_modifications env config logs n else [])"
proof -
  have "filter (\<lambda>l. rl_block_number l = Some n) (filter (log_between a b) logs) =
      (if a \<le> n \<and> n \<le> b then filter (\<lambda>l. rl_block_number l = Some n) logs else [])"
    by (induction logs) (auto simp: log_between_def)
  then show ?thesis by (simp add: block_modifications_def List.map_filter_def)
qed

lemma sorted_list_of_set_split:
  assumes "finite (S :: 'a::linorder set)" and "finite T" and "\<And>x y. x \<in> S \<Longrightarrow> y \<in> T \<Longrightarrow> x < y"
  shows "sorted_list_of_set (S \<union> T) = sorted_list_of_set S @ sorted_list_of_set T"
proof (rule sorted_distinct_set_unique)
  show "sorted (sorted_list_of_set S @ sorted_list_of_set T)"
    using assms by (auto simp: sorted_append intro: less_imp_le)
  show "distinct (sorted_list_of_set S @ sorted_list_of_set T)"
    using assms by fastforce
qed (use assms in auto)

text \<open>How far the awaited block lets the store go.\<close>

definition move_bound :: "u64 \<Rightarrow> u64" where
  "move_bound awaited = (if awaited = 0 then 0 else awaited + 1)"

text \<open>No state of the node lets the store go beyond \<open>bound\<close>; the store is as far as one of them allows.\<close>

definition awaited_below :: "(nat \<Rightarrow> 'e rpc) \<Rightarrow> block_tag \<Rightarrow> u64 \<Rightarrow> bool" where
  "awaited_below node tag bound \<longleftrightarrow> (\<forall>k tagged. get_block_by_number (node k) (block_tag_into tag) = Inr (Some tagged) \<longrightarrow>
     move_bound (hdr_number tagged) \<le> bound)"

definition awaited_reached :: "(nat \<Rightarrow> 'e rpc) \<Rightarrow> block_tag \<Rightarrow> u64 \<Rightarrow> u64 \<Rightarrow> bool" where
  "awaited_reached node tag head moved \<longleftrightarrow> (\<exists>k tagged. get_block_by_number (node k) (block_tag_into tag) = Inr (Some tagged) \<and>
     min (move_bound (hdr_number tagged)) head \<le> moved)"

lemma awaited_reachedI:
  "get_block_by_number (node k) (block_tag_into tag) = Inr (Some tagged) \<Longrightarrow>
   awaited_reached node tag head (max moved (min (move_bound (hdr_number tagged)) head))"
  unfolding awaited_reached_def using max.cobounded2 by blast

lemma awaited_belowD:
  assumes "awaited_below node tag bound" and "get_block_by_number (node k) (block_tag_into tag) = Inr (Some tagged)"
  shows "max moved (min (move_bound (hdr_number tagged)) head) \<le> max moved bound"
proof -
  have "move_bound (hdr_number tagged) \<le> bound" using assms unfolding awaited_below_def by blast
  then show ?thesis by (meson max.mono min.coboundedI1 order_refl)
qed

lemma view_mods_prune: "view_mods c (view_prune_to to w) n =
    (if n < to \<and> iv_hashes w n \<noteq> None then [] else view_mods c w n)"
  by (auto simp: view_mods_def)

lemma view_mods_prune_from: "view_mods c (view_prune_from start w) n =
    (if start \<le> n \<and> iv_hashes w n \<noteq> None then [] else view_mods c w n)"
  by (auto simp: view_mods_def)

lemma view_move_bound: "view_move ub w = view_prune_to (move_bound ub) w"
  by (simp add: view_move_def move_bound_def) (rule impI, rule view_eqI, auto)

lemma moved_mods_bound: "moved_mods c ub w = mods_below c w (move_bound ub)"
  by (simp add: moved_mods_def move_bound_def mods_below_def)

lemma less_plus_one: "b \<noteq> u64_max \<Longrightarrow> n < b + 1 \<longleftrightarrow> n \<le> b" for n b :: u64
proof -
  assume "b \<noteq> u64_max"
  then have "1 + b \<noteq> 0" unfolding u64_max_def by (metis add.commute eq_neg_iff_add_eq_0)
  from unatSuc [OF this] show ?thesis by (simp add: word_less_nat_alt word_le_nat_alt add.commute less_Suc_eq_le)
qed

text \<open>A view that holds the blocks from \<open>moved\<close> to \<open>final\<close> of a chain.\<close>

definition view_follows :: "('t, 'k, 'v, 's, 'w, 'e, 'm, 'x, 'h) indexer_env \<Rightarrow> executor_config \<Rightarrow>
    rpc_log list \<Rightarrow> u64 \<Rightarrow> u64 \<Rightarrow> 'v index_view \<Rightarrow> bool" where
  "view_follows env config chain_logs moved final w \<longleftrightarrow>
     (\<forall>n. iv_hashes w n \<noteq> None \<longleftrightarrow> moved \<le> n \<and> n \<le> final) \<and>
     (\<forall>n. view_mods (env_codec env) w n =
        (if moved \<le> n \<and> n \<le> final then map snd (block_modifications env config chain_logs n) else []))"

lemma view_indexes_follows:
  assumes "view_indexes env config p (filter (log_between a b) chain_logs) a b v w" and "moved \<le> a" and "a \<le> b"
    and "\<And>n. iv_hashes v n \<noteq> None \<longleftrightarrow> moved \<le> n \<and> n < a"
    and "\<And>n. view_mods (env_codec env) v n =
      (if moved \<le> n \<and> n < a then map snd (block_modifications env config chain_logs n) else [])"
  shows "view_follows env config chain_logs moved b w"
  unfolding view_follows_def
proof (intro conjI allI)
  fix n
  show "iv_hashes w n \<noteq> None \<longleftrightarrow> moved \<le> n \<and> n \<le> b"
  proof (cases "a \<le> n \<and> n \<le> b")
    case True
    with assms(1,2) show ?thesis unfolding view_indexes_def by fastforce
  next
    case False
    with assms(1) have "iv_hashes w n = iv_hashes v n" unfolding view_indexes_def by blast
    with assms(4) [of n] False assms(3) show ?thesis by auto
  qed
  show "view_mods (env_codec env) w n =
      (if moved \<le> n \<and> n \<le> b then map snd (block_modifications env config chain_logs n) else [])"
    using assms(1) assms(5) [of n] assms(2,3) unfolding view_indexes_def block_modifications_between
    by (auto simp: not_less not_le)
qed

text \<open>Moving the blocks below a bound takes exactly their modifications, in chain order.\<close>

lemma above_moved:
  assumes "(b :: u64) \<noteq> u64_max"
  shows "max moved (min beta (b + 1)) \<le> n \<longleftrightarrow> moved \<le> n \<and> (beta \<le> n \<or> \<not> n \<le> b)"
  using less_plus_one [OF assms, of n] by (auto simp: max_def min_def)

lemma chain_mods_move:
  assumes "view_follows env config chain_logs moved b w" and "b \<noteq> u64_max"
  shows "chain_mods env config chain_logs (max moved (min beta (b + 1))) =
    chain_mods env config chain_logs moved @ mods_below (env_codec env) w beta"
proof -
  let ?S = "{n. n < beta \<and> iv_hashes w n \<noteq> None}"
  have wH: "iv_hashes w n \<noteq> None \<longleftrightarrow> moved \<le> n \<and> n \<le> b"
    and wM: "view_mods (env_codec env) w n =
      (if moved \<le> n \<and> n \<le> b then map snd (block_modifications env config chain_logs n) else [])" for n
    using assms(1) unfolding view_follows_def by blast+
  have "{n. n < max moved (min beta (b + 1))} = {n. n < moved} \<union> ?S"
    unfolding wH using above_moved [OF assms(2), of moved beta] by (auto simp: not_le [symmetric])
  then have "sorted_list_of_set {n. n < max moved (min beta (b + 1))} =
      sorted_list_of_set {n. n < moved} @ sorted_list_of_set ?S"
    by (simp only:) (rule sorted_list_of_set_split, use wH in \<open>auto intro: less_le_trans\<close>)
  moreover have "map (view_mods (env_codec env) w) (sorted_list_of_set ?S) =
      map (\<lambda>n. map snd (block_modifications env config chain_logs n)) (sorted_list_of_set ?S)"
    unfolding wH by (rule map_cong) (auto simp: wM)
  ultimately show ?thesis unfolding chain_mods_def mods_below_def by (simp only: map_append concat_append)
qed

context indexed_store
begin

lemma index_range_follows:
  assumes "follows_chain env tcontent content chain_logs st moved a ix"
    and "index_range env p a b ix = Some (Inr u, ix')" and "a \<le> b" and "b \<noteq> u64_max"
    and "serves_logs p (state_oracle ix) chain_logs" and "distinct (map log_position chain_logs)"
  shows "\<exists>tagged. get_block_by_number p (block_tag_into (await_tag ix)) = Inr (Some tagged) \<and>
    follows_chain env tcontent content chain_logs st
      (max moved (min (move_bound (hdr_number tagged)) (b + 1))) (b + 1) ix' \<and>
    state_oracle ix' = state_oracle ix \<and> await_tag ix' = await_tag ix \<and>
    (\<exists>hdr. get_block_by_number p (TagNumber b) = Inr (Some hdr) \<and>
       last_indexed_is env tcontent ix' \<lparr>bnh_number = b, bnh_hash = hdr_hash hdr\<rparr>)"
proof -
  from assms(1) have B: "moved \<le> a"
    and H: "\<And>n. iv_hashes (view_of env tcontent ix) n \<noteq> None \<longleftrightarrow> moved \<le> n \<and> n < a"
    and M: "\<And>n. view_mods (env_codec env) (view_of env tcontent ix) n =
      (if moved \<le> n \<and> n < a then map snd (block_modifications env (ix_executor_config ix) chain_logs n) else [])"
    and S: "stored (env_store_bincode env) (content (ix_store ix)) =
      fold abstract_apply (chain_mods env (ix_executor_config ix) chain_logs moved) st"
    and bk: "block_keys (env_codec env) (tcontent (block_hash_tree ix))"
    and rd: "\<And>x. readable (env_store_bincode env) (content (ix_store ix)) x"
    by (simp_all add: follows_chain_def)
  have lg: "logs = filter (log_between a b) chain_logs" if "get_logs_in p (state_oracle ix) a b = Inr logs" for logs
    using assms(5) that by (simp add: serves_logs_def)
  then have "distinct (map log_position logs)" if "get_logs_in p (state_oracle ix) a b = Inr logs" for logs
    using that assms(6) by (auto simp: distinct_map intro: inj_on_subset)
  from index_range_ok [OF assms(2,3) bk rd this] obtain logs tagged hdr w where
    logs: "get_logs_in p (state_oracle ix) a b = Inr logs"
    and tag: "get_block_by_number p (block_tag_into (await_tag ix)) = Inr (Some tagged)"
    and hdr: "get_block_by_number p (TagNumber b) = Inr (Some hdr)"
    and idx: "view_indexes env (ix_executor_config ix) p logs a b (view_of env tcontent ix) w"
    and v: "view_of env tcontent ix' = view_prune_to (move_bound (hdr_number tagged)) w"
    and st: "stored (env_store_bincode env) (content (ix_store ix')) =
      fold abstract_apply (mods_below (env_codec env) w (move_bound (hdr_number tagged)))
        (stored (env_store_bincode env) (content (ix_store ix)))"
    and fin: "\<forall>x. readable (env_store_bincode env) (content (ix_store ix')) x"
      "block_keys (env_codec env) (tcontent (block_hash_tree ix'))"
      "last_indexed_is env tcontent ix' \<lparr>bnh_number = b, bnh_hash = hdr_hash hdr\<rparr>"
      "state_oracle ix' = state_oracle ix" "ix_executor_config ix' = ix_executor_config ix" "await_tag ix' = await_tag ix"
    unfolding view_move_bound moved_mods_bound by blast
  let ?c = "ix_executor_config ix"
  let ?B = "max moved (min (move_bound (hdr_number tagged)) (b + 1))"
  have w: "view_follows env ?c chain_logs moved b w"
    using idx B assms(3) H M unfolding lg [OF logs] by (rule view_indexes_follows)
  have lt: "n < b + 1 \<longleftrightarrow> n \<le> b" for n by (rule less_plus_one [OF assms(4)])
  note inB = above_moved [OF assms(4), of moved "move_bound (hdr_number tagged)"]
  have "stored (env_store_bincode env) (content (ix_store ix')) = fold abstract_apply (chain_mods env ?c chain_logs ?B) st"
    by (simp add: st S chain_mods_move [OF w assms(4)])
  moreover have "?B \<le> b + 1" using B assms(3) lt [of moved] by (simp add: less_imp_le)
  moreover have "iv_hashes (view_of env tcontent ix') n \<noteq> None \<longleftrightarrow> ?B \<le> n \<and> n < b + 1"
    and "view_mods (env_codec env) (view_of env tcontent ix') n =
      (if ?B \<le> n \<and> n < b + 1 then map snd (block_modifications env ?c chain_logs n) else [])" for n
    using w unfolding view_follows_def v view_mods_prune inB lt by (auto simp: not_less)
  moreover have "head_is env tcontent ix' (b + 1)"
    using fin(3) by (auto simp: last_indexed_is_def head_is_def)
  ultimately have "follows_chain env tcontent content chain_logs st ?B (b + 1) ix'"
    using fin by (simp add: follows_chain_def)
  with tag hdr fin show ?thesis by blast
qed

lemma index_ranges_follow:
  assumes "follows_chain env tcontent content chain_logs st moved (of_nat a) ix"
    and "index_ranges env node k (range_chunks m a b) ix = Some (Inr u, ix')"
    and "0 < m" and "a \<le> b" and "b < unat u64_max"
    and "\<And>k. serves_logs (node k) (state_oracle ix) chain_logs" and "distinct (map log_position chain_logs)"
  shows "\<exists>moved'. moved \<le> moved' \<and> follows_chain env tcontent content chain_logs st moved' (of_nat b + 1) ix' \<and>
    (\<forall>bound. awaited_below node (await_tag ix) bound \<longrightarrow> moved' \<le> max moved bound) \<and>
    awaited_reached node (await_tag ix) (of_nat b + 1) moved'"
  using assms
proof (induction m a b arbitrary: moved k ix rule: range_chunks.induct)
  case (1 m a b)
  let ?y = "min (a + m - 1) b"
  have chunk: "range_chunks m a b = (a, ?y) # range_chunks m (a + m) b"
    using 1(4,5) by (subst range_chunks.simps) simp
  from 1(3) obtain ix1 where r: "index_range env (node k) (of_nat a) (of_nat ?y) ix = Some (Inr (), ix1)"
    and rest: "index_ranges env node (Suc k) (range_chunks m (a + m) b) ix1 = Some (Inr u, ix')"
    by (auto simp: chunk ix_bind_ok)
  have ule: "a \<le> ?y" "?y \<le> b" using 1(4,5) by auto
  have un: "unat (of_nat i :: u64) = i" if "i \<le> b" for i
    using that 1(6) unsigned_less [of u64_max, where 'a = nat] by (simp add: unat_of_nat)
  have le: "(of_nat a :: u64) \<le> of_nat ?y" and ne: "(of_nat ?y :: u64) \<noteq> u64_max"
    using un [of a] un [of ?y] ule 1(6) by (auto simp: word_le_nat_alt)
  from index_range_follows [OF 1(2) r le ne 1(7,8)] obtain tagged where
    tag: "get_block_by_number (node k) (block_tag_into (await_tag ix)) = Inr (Some tagged)"
    and f: "follows_chain env tcontent content chain_logs st
      (max moved (min (move_bound (hdr_number tagged)) (of_nat ?y + 1))) (of_nat ?y + 1) ix1"
    and same: "state_oracle ix1 = state_oracle ix" "await_tag ix1 = await_tag ix" by blast
  let ?M = "max moved (min (move_bound (hdr_number tagged)) (of_nat ?y + 1))"
  show ?case
  proof (cases "a + m \<le> b")
    case False
    then have "range_chunks m (a + m) b = []" by (subst range_chunks.simps) simp
    with rest f False show ?thesis
      using awaited_reachedI [of node k, OF tag] awaited_belowD [of node _ _ k, OF _ tag] by (intro exI [of _ ?M]) auto
  next
    case True
    then have y: "Suc ?y = a + m" using 1(4) by simp
    have "(of_nat ?y + 1 :: u64) = of_nat (a + m)" using arg_cong [OF y, of "of_nat :: nat \<Rightarrow> u64"] by (simp only: of_nat_Suc add.commute)
    with f have f': "follows_chain env tcontent content chain_logs st ?M (of_nat (a + m)) ix1" by simp
    have "\<not> (m = 0 \<or> b < a)" "\<And>k. serves_logs (node k) (state_oracle ix1) chain_logs"
      using 1(4,5,7) same by simp_all
    from 1(1) [OF this(1) f' rest 1(4) True 1(6) this(2) 1(8)] obtain moved' where m':
      "?M \<le> moved'" "follows_chain env tcontent content chain_logs st moved' (of_nat b + 1) ix'"
      "\<forall>bound. awaited_below node (await_tag ix) bound \<longrightarrow> moved' \<le> max ?M bound"
      "awaited_reached node (await_tag ix) (of_nat b + 1) moved'" unfolding same by blast
    have "moved' \<le> max moved bound" if "awaited_below node (await_tag ix) bound" for bound
      using m'(3) awaited_belowD [of node _ _ k, OF that tag] that by (meson max.bounded_iff max.cobounded2 order_trans)
    with m' show ?thesis by (intro exI [of _ moved']) simp
  qed
qed

lemma last_indexed_head:
  assumes "get_last_indexed_block_num_hash env ix = Inr lst" and "head_is env tcontent ix head"
  shows "head = (case lst of None \<Rightarrow> 0 | Some b \<Rightarrow> bnh_number b + 1) \<and>
    (\<forall>b. lst = Some b \<longrightarrow> last_indexed_is env tcontent ix b)"
proof -
  from assms(1) obtain v where g: "tree_get (env_trees env) (latest_block_tree ix) (empty_key (env_codec env)) = Inr v"
    by (auto simp: get_last_indexed_block_num_hash_def result_eqs)
  from get_entry [OF this] g assms show ?thesis
    by (auto simp: get_last_indexed_block_num_hash_def head_is_def last_indexed_is_def result_eqs
        split: option.splits sum.splits)
qed

text \<open>Undoing a reorg leaves an index that follows the new chain up to the common ancestor.\<close>

lemma undo_reorg_ok:
  assumes "undo_reorg env p upd ix = Some (Inr start, ix')" and "chain_provider p"
    and "block_keys (env_codec env) (tcontent (block_hash_tree ix))"
  shows "\<exists>blk. start = hdr_number blk + 1 \<and> ancestor p (ub_parent_hash upd) blk \<and>
    block_indexed env tcontent (block_hash_tree ix) blk \<and>
    (\<forall>blk'. ancestor p (ub_parent_hash upd) blk' \<and> hdr_number blk < hdr_number blk' \<longrightarrow>
       \<not> block_indexed env tcontent (block_hash_tree ix) blk') \<and>
    view_of env tcontent ix' = view_prune_from start (view_of env tcontent ix) \<and>
    block_keys (env_codec env) (tcontent (block_hash_tree ix')) \<and> head_is env tcontent ix' start \<and>
    (\<exists>t. same_rest (ix\<lparr>latest_block_tree := t\<rparr>) ix')"
proof -
  from chain_indexer.common_ancestor_spec [OF chain_indexer.intro [OF indexed_axioms assms(2)],
      of "block_hash_tree ix" "ub_parent_hash upd"]
  obtain r where r: "find_common_ancestor env p (block_hash_tree ix) (ub_parent_hash upd) = Some r"
    "ancestor_result env tcontent (block_hash_tree ix) {blk. ancestor p (ub_parent_hash upd) blk} r" by blast
  from assms(1) r(1) obtain ca ix1 where ca: "r = Inr ca" and st: "start = ca + 1"
    and p: "prune_from env start ix = Some (Inr (), ix1)"
    and l: "insert_last_indexed_block_num_hash env \<lparr>bnh_number = ca, bnh_hash = ub_parent_hash upd\<rparr> ix1 =
      Some (Inr (), ix')"
    by (cases r) (auto simp: undo_reorg_def ix_bind_ok)
  from r(2) obtain blk where blk: "ancestor p (ub_parent_hash upd) blk" "hdr_number blk = ca"
    "block_indexed env tcontent (block_hash_tree ix) blk"
    "\<forall>blk'. ancestor p (ub_parent_hash upd) blk' \<and> ca < hdr_number blk' \<longrightarrow>
       \<not> block_indexed env tcontent (block_hash_tree ix) blk'" by (auto simp: ca ancestor_result_def)
  from prune_from_spec [OF assms(3), of start] p have v: "same_rest ix ix1"
    "view_of env tcontent ix1 = view_prune_from start (view_of env tcontent ix)"
    "block_keys (env_codec env) (tcontent (block_hash_tree ix1))" by auto
  from insert_last_spec [OF l] obtain t where t: "ix' = ix1\<lparr>latest_block_tree := t\<rparr>"
    and last': "last_indexed_is env tcontent ix' \<lparr>bnh_number = ca, bnh_hash = ub_parent_hash upd\<rparr>" by blast
  have "same_rest (ix\<lparr>latest_block_tree := t\<rparr>) ix'" unfolding t by (rule same_rest_latest [OF v(1)])
  moreover have "view_of env tcontent ix' = view_of env tcontent ix1" by (simp add: t view_of_def)
  moreover have "head_is env tcontent ix' start"
    using last' by (auto simp: last_indexed_is_def head_is_def st)
  moreover have "block_keys (env_codec env) (tcontent (block_hash_tree ix'))" using v(3) by (simp add: t)
  ultimately show ?thesis using blk v(2) st by (intro exI [of _ blk]) auto
qed

end

text \<open>Two chains have the same modifications below a block.\<close>

definition agree_below :: "('t, 'k, 'v, 's, 'w, 'e, 'm, 'x, 'h) indexer_env \<Rightarrow> executor_config \<Rightarrow>
    rpc_log list \<Rightarrow> rpc_log list \<Rightarrow> u64 \<Rightarrow> bool" where
  "agree_below env config logs logs' n \<longleftrightarrow>
     (\<forall>m < n. block_modifications env config logs m = block_modifications env config logs' m)"

lemma follows_chain_agree:
  assumes "follows_chain env tcontent content logs st moved head ix" and "agree_below env (ix_executor_config ix) logs logs' head"
  shows "follows_chain env tcontent content logs' st moved head ix"
proof -
  have "moved \<le> head" using assms(1) by (simp add: follows_chain_def)
  then have "chain_mods env (ix_executor_config ix) logs moved = chain_mods env (ix_executor_config ix) logs' moved"
    using assms(2) unfolding chain_mods_def agree_below_def by (intro arg_cong [where f = concat] map_cong) auto
  then show ?thesis using assms unfolding follows_chain_def agree_below_def by (auto cong: if_cong)
qed

lemma agree_below_le: "agree_below env config logs logs' n \<Longrightarrow> m \<le> n \<Longrightarrow> agree_below env config logs logs' m"
  unfolding agree_below_def by (meson less_le_trans)

lemma agree_below_trans:
  "agree_below env config logs logs' n \<Longrightarrow> agree_below env config logs' logs'' n \<Longrightarrow> agree_below env config logs logs'' n"
  by (simp add: agree_below_def)

text \<open>An indexed block is not below the blocks that have been moved.\<close>

lemma follows_chain_indexed:
  assumes "follows_chain env tcontent content logs st moved head ix"
    and "block_indexed env tcontent (block_hash_tree ix) blk"
  shows "moved \<le> hdr_number blk \<and> hdr_number blk < head"
proof -
  have "iv_hashes (view_of env tcontent ix) (hdr_number blk) \<noteq> None"
    using assms(2) by (auto simp: block_indexed_def hash_is_def view_of_def split: option.splits)
  then show ?thesis using assms(1) unfolding follows_chain_def by blast
qed

context indexed_store
begin

lemma undo_reorg_follows:
  assumes "follows_chain env tcontent content old_logs st moved head ix"
    and "undo_reorg env p upd ix = Some (Inr start, ix')" and "chain_provider p"
    and "\<And>blk. ancestor p (ub_parent_hash upd) blk \<Longrightarrow> block_indexed env tcontent (block_hash_tree ix) blk \<Longrightarrow>
      agree_below env (ix_executor_config ix) old_logs new_logs (hdr_number blk + 1)"
  shows "follows_chain env tcontent content new_logs st moved start ix' \<and> start \<le> head \<and>
    state_oracle ix' = state_oracle ix \<and> await_tag ix' = await_tag ix"
proof -
  have bk: "block_keys (env_codec env) (tcontent (block_hash_tree ix))" using assms(1) by (simp add: follows_chain_def)
  from undo_reorg_ok [OF assms(2,3) bk] obtain blk t where blk: "start = hdr_number blk + 1"
    "ancestor p (ub_parent_hash upd) blk" "block_indexed env tcontent (block_hash_tree ix) blk"
    and v: "view_of env tcontent ix' = view_prune_from start (view_of env tcontent ix)"
    and fin: "block_keys (env_codec env) (tcontent (block_hash_tree ix'))" "head_is env tcontent ix' start"
    and rest: "same_rest (ix\<lparr>latest_block_tree := t\<rparr>) ix'" by blast
  from follows_chain_indexed [OF assms(1) blk(3)] have in_range: "moved \<le> hdr_number blk" "hdr_number blk < head"
    by simp_all
  then have "hdr_number blk \<noteq> u64_max" unfolding u64_max_def by auto
  from less_plus_one [OF this] in_range have "moved \<le> start" "start \<le> head"
    unfolding blk(1) by (metis less_imp_le not_le order.trans order_less_le_trans)+
  note se = same_rest_sel [OF rest]
  moreover have "follows_chain env tcontent content old_logs st moved start ix'"
    unfolding follows_chain_def
  proof (intro conjI allI)
    fix n
    have H: "iv_hashes (view_of env tcontent ix) n \<noteq> None \<longleftrightarrow> moved \<le> n \<and> n < head"
      and M: "view_mods (env_codec env) (view_of env tcontent ix) n = (if moved \<le> n \<and> n < head
        then map snd (block_modifications env (ix_executor_config ix) old_logs n) else [])"
      using assms(1) unfolding follows_chain_def by blast+
    show "iv_hashes (view_of env tcontent ix') n \<noteq> None \<longleftrightarrow> moved \<le> n \<and> n < start"
      unfolding v using H \<open>start \<le> head\<close> by auto
    show "view_mods (env_codec env) (view_of env tcontent ix') n = (if moved \<le> n \<and> n < start
        then map snd (block_modifications env (ix_executor_config ix') old_logs n) else [])"
      unfolding v view_mods_prune_from H M using \<open>start \<le> head\<close> se by auto
  qed (use assms(1) fin se \<open>moved \<le> start\<close> in \<open>auto simp: follows_chain_def\<close>)
  then have "follows_chain env tcontent content new_logs st moved start ix'"
    by (rule follows_chain_agree) (use assms(4) [OF blk(2,3)] se blk(1) in simp)
  ultimately show ?thesis using \<open>start \<le> head\<close> by simp
qed

lemma sync_start_follows:
  assumes "follows_chain env tcontent content old_logs st moved head ix"
    and "sync_start env p upd ix = Some (Inr start, ix')" and "chain_provider p"
    and "\<And>blk. ancestor p (ub_parent_hash upd) blk \<Longrightarrow> block_indexed env tcontent (block_hash_tree ix) blk \<Longrightarrow>
      agree_below env (ix_executor_config ix) old_logs new_logs (hdr_number blk + 1)"
    and "\<And>l. last_indexed_is env tcontent ix l \<Longrightarrow> check_if_reorged p upd l = Some (Inr False) \<Longrightarrow>
      agree_below env (ix_executor_config ix) old_logs new_logs head"
  shows "follows_chain env tcontent content new_logs st moved start ix' \<and> start \<le> head \<and>
    state_oracle ix' = state_oracle ix \<and> await_tag ix' = await_tag ix"
proof -
  have hd: "head_is env tcontent ix head" using assms(1) by (simp add: follows_chain_def)
  from assms(2) obtain lst where g: "get_last_indexed_block_num_hash env ix = Inr lst"
    by (auto simp: sync_start_def split: sum.splits)
  note head = last_indexed_head [OF g hd]
  show ?thesis
  proof (cases lst)
    case None
    with assms(2) g head have "ix' = ix" "start = head" by (simp_all add: sync_start_def)
    moreover have "agree_below env (ix_executor_config ix) old_logs new_logs head"
      using head None by (simp add: agree_below_def)
    ultimately show ?thesis using follows_chain_agree [OF assms(1)] by simp
  next
    case (Some b)
    with assms(2) g obtain reorged where c: "check_if_reorged p upd b = Some (Inr reorged)"
      and s: "(if reorged then undo_reorg env p upd ix else Some (Inr (bnh_number b + 1), ix)) = Some (Inr start, ix')"
      by (auto simp: sync_start_def split: option.splits sum.splits)
    show ?thesis
    proof (cases reorged)
      case True
      with s undo_reorg_follows [OF assms(1) _ assms(3,4)] show ?thesis by simp
    next
      case False
      with s head Some have "ix' = ix" "start = head" by simp_all
      moreover have "agree_below env (ix_executor_config ix) old_logs new_logs head"
        using assms(5) [of b] c False head Some by simp
      ultimately show ?thesis using follows_chain_agree [OF assms(1)] by simp
    qed
  qed
qed

text \<open>No sync that succeeds takes back a block that has been moved: the two chains agree below it.\<close>

lemma sync_start_agrees:
  assumes "follows_chain env tcontent content old_logs st moved head ix"
    and "sync_start env p upd ix = Some (Inr start, ix')" and "chain_provider p"
    and "\<And>blk. ancestor p (ub_parent_hash upd) blk \<Longrightarrow> block_indexed env tcontent (block_hash_tree ix) blk \<Longrightarrow>
      agree_below env (ix_executor_config ix) old_logs new_logs (hdr_number blk + 1)"
    and "\<And>l. last_indexed_is env tcontent ix l \<Longrightarrow> check_if_reorged p upd l = Some (Inr False) \<Longrightarrow>
      agree_below env (ix_executor_config ix) old_logs new_logs head"
  shows "agree_below env (ix_executor_config ix) old_logs new_logs moved"
proof -
  have hd: "head_is env tcontent ix head" and le: "moved \<le> head"
    and bk: "block_keys (env_codec env) (tcontent (block_hash_tree ix))" using assms(1) by (simp_all add: follows_chain_def)
  from assms(2) obtain lst where g: "get_last_indexed_block_num_hash env ix = Inr lst"
    by (auto simp: sync_start_def split: sum.splits)
  note head = last_indexed_head [OF g hd]
  show ?thesis
  proof (cases lst)
    case None
    with head le show ?thesis by (simp add: agree_below_def)
  next
    case (Some b)
    with assms(2) g obtain reorged where c: "check_if_reorged p upd b = Some (Inr reorged)"
      and s: "reorged \<Longrightarrow> undo_reorg env p upd ix = Some (Inr start, ix')"
      by (auto simp: sync_start_def split: option.splits sum.splits if_splits)
    show ?thesis
    proof (cases reorged)
      case True
      from undo_reorg_ok [OF s [OF True] assms(3) bk] obtain blk where blk: "ancestor p (ub_parent_hash upd) blk"
        "block_indexed env tcontent (block_hash_tree ix) blk" by blast
      note range = follows_chain_indexed [OF assms(1) blk(2)]
      then have "hdr_number blk \<noteq> u64_max" unfolding u64_max_def by auto
      from less_plus_one [OF this] range have "moved \<le> hdr_number blk + 1"
        by (metis less_imp_le not_le order.trans)
      with assms(4) [OF blk] show ?thesis by (rule agree_below_le)
    next
      case False
      with assms(5) [of b] c head Some le show ?thesis by (auto intro: agree_below_le)
    qed
  qed
qed

lemma sync_follows:
  assumes "follows_chain env tcontent content old_logs st moved head ix"
    and "sync env node upd max_blocks ix = Some (Inr u, ix')" and "chain_provider (node 0)"
    and "0 < max_blocks" and "unat (ub_block_number upd) + unat max_blocks < 2 ^ 64"
    and "\<And>k. serves_logs (node k) (state_oracle ix) new_logs" and "distinct (map log_position new_logs)"
    and "\<And>blk. ancestor (node 0) (ub_parent_hash upd) blk \<Longrightarrow> block_indexed env tcontent (block_hash_tree ix) blk \<Longrightarrow>
      agree_below env (ix_executor_config ix) old_logs new_logs (hdr_number blk + 1)"
    and "\<And>l. last_indexed_is env tcontent ix l \<Longrightarrow> check_if_reorged (node 0) upd l = Some (Inr False) \<Longrightarrow>
      agree_below env (ix_executor_config ix) old_logs new_logs head"
  shows "\<exists>moved' head'. moved \<le> moved' \<and> follows_chain env tcontent content new_logs st moved' head' ix' \<and>
    (\<forall>bound. awaited_below node (await_tag ix) bound \<longrightarrow> moved' \<le> max moved bound) \<and>
    ub_block_number upd < head' \<and>
    (head \<le> ub_block_number upd \<longrightarrow> head' = ub_block_number upd + 1 \<and>
      awaited_reached node (await_tag ix) head' moved')"
proof -
  let ?n = "ub_block_number upd"
  from assms(2) obtain start ix1 where s: "sync_start env (node 0) upd ix = Some (Inr start, ix1)"
    and l: "index_ranges env node 1 (range_chunks (unat max_blocks) (unat start) (unat ?n)) ix1 = Some (Inr u, ix')"
    by (auto simp: sync_def ix_bind_ok sync_loop_ranges [OF assms(4,5)])
  have f1: "follows_chain env tcontent content new_logs st moved start ix1 \<and> start \<le> head \<and>
      state_oracle ix1 = state_oracle ix \<and> await_tag ix1 = await_tag ix"
    using assms(1) s assms(3,8,9) by (rule sync_start_follows)
  show ?thesis
  proof (cases "start \<le> ?n")
    case False
    then have "ix1 = ix'" using l by (subst (asm) range_chunks.simps) (simp add: word_le_nat_alt)
    with f1 False show ?thesis by (intro exI [of _ moved] exI [of _ start]) auto
  next
    case True
    have "0 < unat max_blocks" using assms(4) by (simp add: word_less_nat_alt)
    moreover have "unat u64_max = 2 ^ 64 - 1"
      by (simp add: u64_max_def unsigned_minus_1_eq_mask mask_eq_exp_minus_1)
    ultimately have m: "unat ?n < unat u64_max" using assms(5) by linarith
    have "follows_chain env tcontent content new_logs st moved (of_nat (unat start)) ix1" using f1 by simp
    from index_ranges_follow [OF this l \<open>0 < unat max_blocks\<close> _ m _ assms(7)] True f1 assms(6)
    obtain moved' where "moved \<le> moved'" "follows_chain env tcontent content new_logs st moved' (?n + 1) ix'"
      "\<forall>bound. awaited_below node (await_tag ix) bound \<longrightarrow> moved' \<le> max moved bound"
      "awaited_reached node (await_tag ix) (?n + 1) moved'" by (auto simp: word_le_nat_alt)
    moreover have "?n < ?n + 1" using less_plus_one [of ?n ?n] m by fastforce
    ultimately show ?thesis by blast
  qed
qed

end

section \<open>Syncs return\<close>

text \<open>A step returns, and when it returns a value, the value and the state satisfy \<open>Q\<close>.\<close>

definition returns :: "('e, 'a, 's) step_result \<Rightarrow> ('a \<Rightarrow> 's \<Rightarrow> bool) \<Rightarrow> bool" where
  "returns m Q \<longleftrightarrow> (\<exists>r s. m = Some (r, s) \<and> (\<forall>a. r = Inr a \<longrightarrow> Q a s))"

lemma returns_Some: "returns (Some (r, s)) Q \<longleftrightarrow> (\<forall>a. r = Inr a \<longrightarrow> Q a s)"
  by (auto simp: returns_def)

lemma returns_bind:
  assumes "returns m Q" and "\<And>a s. Q a s \<Longrightarrow> returns (f a s) R"
  shows "returns (ix_bind m f) R"
  using assms by (fastforce simp: returns_def ix_bind_def split: option.splits sum.splits prod.splits)

lemma returns_result: "(\<And>a. r = Inr a \<Longrightarrow> Q a s) \<Longrightarrow> returns (ix_result r s) Q"
  by (simp add: ix_result_def returns_Some)

lemma returns_weaken: "returns m Q \<Longrightarrow> (\<And>a s. Q a s \<Longrightarrow> R a s) \<Longrightarrow> returns m R"
  by (auto simp: returns_def)

lemma write_pending_returns:
  "returns (write_pending_modifications env pending ix) (\<lambda>_ ix'. block_hash_tree ix' = block_hash_tree ix)"
  by (auto simp: write_pending_modifications_def returns_Some split: sum.split prod.split)

lemma insert_last_returns:
  "returns (insert_last_indexed_block_num_hash env b ix) (\<lambda>_ ix'. block_hash_tree ix' = block_hash_tree ix)"
  by (auto simp: insert_last_indexed_block_num_hash_def returns_Some Let_def split: sum.split prod.split)

context indexed
begin

lemma write_hashes_returns:
  assumes "block_keys (env_codec env) (tcontent (block_hash_tree ix))"
  shows "returns (write_block_num_hash_batch env hs ix) (\<lambda>_ ix'. block_keys (env_codec env) (tcontent (block_hash_tree ix')))"
proof (cases "result_list (map (block_num_hash_entry (env_codec env)) hs)")
  case (Inl e)
  then show ?thesis by (simp add: write_block_num_hash_batch_def returns_Some)
next
  case (Inr batch)
  obtain r t where t: "tree_apply_batch (env_trees env) (block_hash_tree ix) batch = (r, t)" by fastforce
  have "block_keys (env_codec env) (tcontent t)" if r: "r = Inr u" for u
    unfolding batch_entries [OF t [unfolded r]]
    by (rule block_keys_batch [OF Inr _ assms]) (auto simp: block_num_hash_entry_def result_eqs)
  with Inr t show ?thesis by (auto simp: write_block_num_hash_batch_def returns_Some map_err_eq_Inr)
qed

lemma prune_to_returns:
  "block_keys (env_codec env) (tcontent (block_hash_tree ix)) \<Longrightarrow>
   returns (prune_to env to ix) (\<lambda>_ ix'. block_keys (env_codec env) (tcontent (block_hash_tree ix')))"
  using prune_to_spec [of ix to] by (auto simp: returns_def)

lemma prune_from_returns:
  "block_keys (env_codec env) (tcontent (block_hash_tree ix)) \<Longrightarrow>
   returns (prune_from env start ix) (\<lambda>_ ix'. block_keys (env_codec env) (tcontent (block_hash_tree ix')))"
  using prune_from_spec [of ix start] by (auto simp: returns_def)

end

context indexed_store
begin

lemma move_returns:
  assumes "block_keys (env_codec env) (tcontent (block_hash_tree ix))"
  shows "returns (move_pending_modifications_to_store env ub ix)
    (\<lambda>_ ix'. block_keys (env_codec env) (tcontent (block_hash_tree ix')))"
proof (cases "ub = 0")
  case True
  with assms show ?thesis by (simp add: move_pending_modifications_to_store_def returns_Some)
next
  case False
  note prune_to_returns [OF assms, of "ub + 1"]
  moreover have "\<exists>r s. apply_pending_modifications (env_store_ops env) (env_store_bincode env)
      (env_store_interference env) (env_store_iter env) mods db = Some (r, s)" for mods db
    unfolding apply_pending_modifications_def store_alone using store.groups_alone_return by fastforce
  ultimately show ?thesis using False unfolding move_pending_modifications_to_store_def
    by (auto intro!: returns_bind simp: returns_Some split: option.split) (metis option.distinct(1))
qed

lemma index_range_returns:
  assumes "block_keys (env_codec env) (tcontent (block_hash_tree ix))"
  shows "returns (index_range env p a b ix) (\<lambda>_ ix'. block_keys (env_codec env) (tcontent (block_hash_tree ix')))"
  (is "returns _ (\<lambda>_. ?K)")
proof -
  have keep: "returns m (\<lambda>_. ?K)" if "returns m (\<lambda>_ s. block_hash_tree s = block_hash_tree s0)" "?K s0"
    for m :: "('e, unit, ('t, 's) indexer) step_result" and s0
    by (rule returns_weaken [OF that(1)]) (use that(2) in simp)
  have tail: "returns (ix_bind (if hs = [] then Some (Inr (), s1) else insert_last_indexed_block_num_hash env (last hs) s1)
      (\<lambda>_ ix. ix_bind (write_block_num_hash_batch env hs ix) (\<lambda>_ ix.
        ix_bind (ix_result (result_bind (map_err TransportError
          (get_block_by_number p (block_tag_into (await_tag ix)))) (ok_or ParentBlockNotFound)) ix)
          (\<lambda>block_to_move ix. move_pending_modifications_to_store env (hdr_number block_to_move) ix)))) (\<lambda>_. ?K)"
    if "map bnh_number hs = u64_range a b" "?K s1" for hs s1
    by (rule returns_bind [where Q = "\<lambda>_. ?K"])
      (use that keep [OF insert_last_returns, of s1] in \<open>auto simp: returns_Some intro!: returns_bind [where Q = "\<lambda>_. ?K"]
        returns_result write_hashes_returns move_returns\<close>)
  show ?thesis
    unfolding index_range_def
  proof (rule returns_bind [where Q = "\<lambda>_. ?K"], rule returns_result, rule assms,
      rule returns_bind [where Q = "\<lambda>_. ?K"], rule returns_result, assumption,
      rule returns_bind [where Q = "\<lambda>_. ?K"])
    fix pending s0
    assume "?K s0"
    then show "returns (write_pending_modifications env pending s0) (\<lambda>_. ?K)"
      by (rule keep [OF write_pending_returns])
  next
    fix s0
    assume "?K s0"
    then show "returns (ix_bind (ix_result (result_list (map (block_hash_at p) (u64_range a b))) s0)
      (\<lambda>block_hashes ix. ix_bind (if block_hashes = [] then Some (Inr (), ix)
          else insert_last_indexed_block_num_hash env (last block_hashes) ix)
        (\<lambda>_ ix. ix_bind (write_block_num_hash_batch env block_hashes ix) (\<lambda>_ ix.
          ix_bind (ix_result (result_bind (map_err TransportError
            (get_block_by_number p (block_tag_into (await_tag ix)))) (ok_or ParentBlockNotFound)) ix)
            (\<lambda>block_to_move ix. move_pending_modifications_to_store env (hdr_number block_to_move) ix))))) (\<lambda>_. ?K)"
      by (intro returns_bind [where Q = "\<lambda>hs s. ?K s \<and> map bnh_number hs = u64_range a b"] returns_result)
        (use block_hashes_numbers tail in blast)+
  qed
qed

lemma index_ranges_return:
  "block_keys (env_codec env) (tcontent (block_hash_tree ix)) \<Longrightarrow>
   returns (index_ranges env node k rs ix) (\<lambda>_ ix'. block_keys (env_codec env) (tcontent (block_hash_tree ix')))"
proof (induction rs arbitrary: k ix)
  case (Cons r rs)
  show ?case unfolding index_ranges.simps
    by (rule returns_bind [OF index_range_returns [OF Cons.prems]]) (rule Cons.IH)
qed (simp add: returns_Some)

lemma undo_reorg_returns:
  assumes "block_keys (env_codec env) (tcontent (block_hash_tree ix))" and "chain_provider p"
  shows "returns (undo_reorg env p upd ix) (\<lambda>_ ix'. block_keys (env_codec env) (tcontent (block_hash_tree ix')))"
proof -
  have "\<exists>r. find_common_ancestor env p (block_hash_tree ix) h = Some r" for h
    using chain_indexer.common_ancestor_spec [OF chain_indexer.intro [OF indexed_axioms assms(2)]] by blast
  then obtain r where r: "find_common_ancestor env p (block_hash_tree ix) (ub_parent_hash upd) = Some r" by blast
  show ?thesis
    using assms(1) unfolding undo_reorg_def r
    by (auto simp: returns_Some split: sum.split intro!: returns_bind [OF prune_from_returns]
        intro: returns_bind [OF insert_last_returns])
qed

lemma sync_start_returns:
  assumes "block_keys (env_codec env) (tcontent (block_hash_tree ix))" and "chain_provider p"
  shows "returns (sync_start env p upd ix) (\<lambda>_ ix'. block_keys (env_codec env) (tcontent (block_hash_tree ix')))"
proof -
  have c: "\<exists>r. check_if_reorged p upd l = Some r" for l
    using chain_provider.walk_returns [OF assms(2)] by (simp add: check_if_reorged_def)
  with undo_reorg_returns [OF assms] assms(1) show ?thesis unfolding sync_start_def
    by (auto simp: returns_Some split: option.split sum.split) (metis option.distinct(1))
qed

end

section \<open>The block hash tree stays keyed by block numbers\<close>

text \<open>Whether a step returns or not: when it returns a value, the block hash tree has nothing but block number keys.\<close>

abbreviation keyed :: "('t, 'k, 'v, 's, 'w, 'e, 'm, 'x, 'h) indexer_env \<Rightarrow> ('t \<Rightarrow> 'k \<rightharpoonup> 'v) \<Rightarrow> 'a \<Rightarrow> ('t, 's) indexer \<Rightarrow> bool" where
  "keyed env tcontent \<equiv> \<lambda>_ ix. block_keys (env_codec env) (tcontent (block_hash_tree ix))"

definition leaves_keys :: "('t, 'k, 'v, 's, 'w, 'e, 'm, 'x, 'h) indexer_env \<Rightarrow> ('t \<Rightarrow> 'k \<rightharpoonup> 'v) \<Rightarrow>
    ('e, 'a, ('t, 's) indexer) step_result \<Rightarrow> bool" where
  "leaves_keys env tcontent m \<longleftrightarrow>
     (\<forall>a ix'. m = Some (Inr a, ix') \<longrightarrow> block_keys (env_codec env) (tcontent (block_hash_tree ix')))"

lemma leaves_keys_simps [simp]:
  "leaves_keys env tcontent None"
  "leaves_keys env tcontent (Some (Inl e, ix))"
  "leaves_keys env tcontent (Some (Inr a, ix)) \<longleftrightarrow> block_keys (env_codec env) (tcontent (block_hash_tree ix))"
  by (simp_all add: leaves_keys_def)

lemma returns_leaves_keys:
  "returns m (\<lambda>_ ix'. block_keys (env_codec env) (tcontent (block_hash_tree ix'))) \<Longrightarrow> leaves_keys env tcontent m"
  by (auto simp: returns_def leaves_keys_def)

lemma leaves_keys_bind:
  "leaves_keys env tcontent m \<Longrightarrow>
   (\<And>a ix. block_keys (env_codec env) (tcontent (block_hash_tree ix)) \<Longrightarrow> leaves_keys env tcontent (f a ix)) \<Longrightarrow>
   leaves_keys env tcontent (ix_bind m f)"
  by (fastforce simp: leaves_keys_def ix_bind_def split: option.splits sum.splits prod.splits)

lemma sync_loop_keys:
  assumes "indexed_store env tcontent content" and "block_keys (env_codec env) (tcontent (block_hash_tree ix))"
  shows "leaves_keys env tcontent (sync_loop env node k upd m a ix)"
proof -
  let ?P = "\<lambda>env node k upd m a ix y. indexed_store env tcontent content \<longrightarrow>
    block_keys (env_codec env) (tcontent (block_hash_tree ix)) \<longrightarrow> leaves_keys env tcontent (Some y)"
  have "?P env node k upd m a ix y" if "sync_loop env node k upd m a ix = Some y" for y
  proof (rule sync_loop.raw_induct [where P = ?P, OF _ that], intro impI)
    fix loop env node k upd m a ix y
    assume IH: "\<And>env node k upd m a ix y. loop env node k upd m a ix = Some y \<Longrightarrow> ?P env node k upd m a ix y"
      and turn: "(if a \<le> upd then let to = min (a + m - 1) upd in (case index_range env (node k) a to ix of
          None \<Rightarrow> None | Some (Inl e, ix') \<Rightarrow> Some (Inl e, ix')
        | Some (Inr _, ix') \<Rightarrow> if to = upd then Some (Inr (), ix') else loop env node (Suc k) upd m (to + 1) ix')
        else Some (Inr (), ix)) = Some y"
      and st: "indexed_store env tcontent content" and bk: "block_keys (env_codec env) (tcontent (block_hash_tree ix))"
    from indexed_store.index_range_returns [OF st bk] obtain r ix1
      where i: "index_range env (node k) a (min (a + m - 1) upd) ix = Some (r, ix1)"
        and k1: "\<And>u. r = Inr u \<Longrightarrow> block_keys (env_codec env) (tcontent (block_hash_tree ix1))"
      unfolding returns_def by blast
    show "leaves_keys env tcontent (Some y)"
      using turn bk st k1 IH i by (cases r) (auto simp: Let_def split: if_splits)
  qed
  with assms show ?thesis by (cases "sync_loop env node k upd m a ix") auto
qed

context indexed_store
begin

lemma sync_start_keys:
  assumes "block_keys (env_codec env) (tcontent (block_hash_tree ix))"
  shows "leaves_keys env tcontent (undo_reorg env p upd ix) \<and> leaves_keys env tcontent (sync_start env p upd ix)"
proof -
  note last = returns_leaves_keys [OF returns_weaken [OF insert_last_returns]]
  have u: "leaves_keys env tcontent (undo_reorg env p upd ix)"
    using assms unfolding undo_reorg_def
    by (auto split: option.split sum.split intro!: leaves_keys_bind [OF returns_leaves_keys [OF prune_from_returns]]
        leaves_keys_bind [OF last])
  with assms show ?thesis by (auto simp: sync_start_def split: sum.split option.split)
qed

lemma sync_keys:
  assumes "block_keys (env_codec env) (tcontent (block_hash_tree ix))"
  shows "leaves_keys env tcontent (sync env node upd max_blocks ix)"
  unfolding sync_def using sync_start_keys [OF assms] sync_loop_keys [OF indexed_store_axioms]
  by (blast intro: leaves_keys_bind)

lemma sync_to_head_keys:
  assumes "block_keys (env_codec env) (tcontent (block_hash_tree ix))"
  shows "leaves_keys env tcontent (sync_to_head env p node ix)"
  using assms by (auto simp: sync_to_head_def split: sum.split option.split intro!: leaves_keys_bind [OF sync_keys])

end

section \<open>Syncs succeed when every service answers\<close>

text \<open>The node can answer for a range, and every log of the state oracle there can be processed.\<close>

definition log_processed :: "('t, 'k, 'v, 's, 'w, 'e, 'm, 'x, 'h) indexer_env \<Rightarrow> executor_config \<Rightarrow> rpc_log \<Rightarrow> bool" where
  "log_processed env config l \<longleftrightarrow> (\<exists>n li r. rl_block_number l = Some n \<and> rl_log_index l = Some li \<and>
     extract_pending_modifications env config l li = Inr r)"

definition node_ready :: "('t, 'k, 'v, 's, 'w, 'e, 'm, 'x, 'h) indexer_env \<Rightarrow> 'e rpc \<Rightarrow> ('t, 's) indexer \<Rightarrow> u64 \<Rightarrow> bool" where
  "node_ready env p ix bound \<longleftrightarrow>
     (\<forall>a b. b \<le> bound \<longrightarrow> (\<exists>logs. get_logs_in p (state_oracle ix) a b = Inr logs \<and>
        distinct (map log_position logs) \<and> list_all (log_processed env (ix_executor_config ix)) logs)) \<and>
     (\<forall>n \<le> bound. \<exists>hdr. get_block_by_number p (TagNumber n) = Inr (Some hdr)) \<and>
     (\<exists>tagged. get_block_by_number p (block_tag_into (await_tag ix)) = Inr (Some tagged))"

lemma process_logs_succeed:
  "list_all (log_processed env config) logs \<Longrightarrow> \<exists>pending. result_fold (process_log env config) acc logs = Inr pending"
proof (induction logs arbitrary: acc)
  case (Cons l logs)
  then obtain acc' where "process_log env config acc l = Inr acc'"
    by (auto simp: log_processed_def process_log_def)
  with Cons show ?case by simp
qed simp

lemma result_list_ok: "(\<And>x. x \<in> set xs \<Longrightarrow> \<exists>y. f x = Inr y) \<Longrightarrow> \<exists>ys. result_list (map f xs) = Inr ys"
  using map_all_Inr [of xs f] by (simp add: result_list_Inr)

locale indexer_available = indexed_store env tcontent content +
    index_trees_available "env_trees env" "env_codec env" tcontent
  for env :: "('t, 'k::linorder, 'v, 's, 'w, 'e, 'm, 'x, 'h) indexer_env" and tcontent and content
begin

lemma ser_u64_available: "\<exists>k. ser_u64 (env_codec env) n = Inr k"
  using ser_u256_returns by (simp add: ser_u64_def)

lemma write_pending_available: "\<exists>ix'. write_pending_modifications env pending ix = Some (Inr (), ix')"
proof -
  have "\<exists>e. pending_entry (env_codec env) x = Inr e" for x
    using ser_u64_available ser_mods_returns by (auto simp: pending_entry_def result_eqs)
  then obtain batch where b: "result_list (map (pending_entry (env_codec env)) pending) = Inr batch"
    using result_list_ok [of pending "pending_entry (env_codec env)"] by blast
  obtain u t where "tree_apply_batch (env_trees env) (pending_modifications_tree ix) batch = (Inr u, t)"
    using batch_returns by blast
  with b show ?thesis by (simp add: write_pending_modifications_def)
qed

lemma write_hashes_available: "\<exists>ix'. write_block_num_hash_batch env hs ix = Some (Inr (), ix')"
proof -
  have "\<exists>e. block_num_hash_entry (env_codec env) x = Inr e" for x
    using ser_u64_available ser_b256_returns by (auto simp: block_num_hash_entry_def result_eqs)
  then obtain batch where b: "result_list (map (block_num_hash_entry (env_codec env)) hs) = Inr batch"
    using result_list_ok [of hs "block_num_hash_entry (env_codec env)"] by blast
  obtain u t where "tree_apply_batch (env_trees env) (block_hash_tree ix) batch = (Inr u, t)"
    using batch_returns by blast
  with b show ?thesis by (simp add: write_block_num_hash_batch_def)
qed

lemma insert_last_available: "\<exists>ix'. insert_last_indexed_block_num_hash env b ix = Some (Inr (), ix')"
proof -
  obtain v where v: "ser_block_num_hash (env_codec env) b = Inr v" using ser_block_num_hash_returns by blast
  obtain w t where "tree_insert (env_trees env) (latest_block_tree ix) (empty_key (env_codec env)) v = (Inr w, t)"
    using insert_returns by blast
  with v show ?thesis by (simp add: insert_last_indexed_block_num_hash_def)
qed

lemma index_range_succeeds:
  assumes "node_ready env p ix b" and "a \<le> b"
    and "block_keys (env_codec env) (tcontent (block_hash_tree ix))"
    and "\<And>x. readable (env_store_bincode env) (content (ix_store ix)) x"
    and "decodable (env_codec env) (view_of env tcontent ix)"
  shows "\<exists>ix'. index_range env p a b ix = Some (Inr (), ix')"
proof -
  from assms(1) obtain logs where logs: "get_logs_in p (state_oracle ix) a b = Inr logs"
    "distinct (map log_position logs)" "list_all (log_processed env (ix_executor_config ix)) logs"
    unfolding node_ready_def by blast
  from assms(1) obtain tagged where tag: "get_block_by_number p (block_tag_into (await_tag ix)) = Inr (Some tagged)"
    unfolding node_ready_def by blast
  obtain pending where pend: "result_fold (process_log env (ix_executor_config ix)) [] logs = Inr pending"
    using process_logs_succeed [OF logs(3)] by blast
  have "\<exists>h. block_hash_at p n = Inr h" if "n \<in> set (u64_range a b)" for n
    using assms(1) that unfolding set_u64_range node_ready_def by (fastforce simp: block_hash_at_def)
  then obtain hs where hs: "result_list (map (block_hash_at p) (u64_range a b)) = Inr hs"
    using result_list_ok [of "u64_range a b" "block_hash_at p"] by blast
  obtain ix1 where w1: "write_pending_modifications env pending ix = Some (Inr (), ix1)"
    using write_pending_available by blast
  obtain ix2 where w2: "(if hs = [] then Some (Inr (), ix1) else insert_last_indexed_block_num_hash env (last hs) ix1) =
      Some (Inr (), ix2)"
    using insert_last_available by (cases "hs = []") auto
  obtain ix3 where w3: "write_block_num_hash_batch env hs ix2 = Some (Inr (), ix3)"
    using write_hashes_available by blast
  have "bt_ok pending" using collected_modifications [OF pend logs(2)] by simp
  from write_pending_spec [OF w1 this] obtain t1 where ix1: "ix1 = ix\<lparr>pending_modifications_tree := t1\<rparr>"
    and d1: "decodable (env_codec env) (view_of env tcontent ix1)" using assms(5) by blast
  obtain t2 where ix2: "ix2 = ix1\<lparr>latest_block_tree := t2\<rparr>"
    using w2 insert_last_spec [of "last hs" ix1 "()" ix2] by (cases "hs = []") (auto intro: that [of "latest_block_tree ix1"])
  have "block_keys (env_codec env) (tcontent (block_hash_tree ix2))" using assms(3) by (simp add: ix2 ix1)
  from write_hashes_spec [OF w3 block_hashes_numbers [OF hs] this] obtain t3 where
    ix3: "ix3 = ix2\<lparr>block_hash_tree := t3\<rparr>" and bk: "block_keys (env_codec env) (tcontent (block_hash_tree ix3))"
    by auto
  have "\<And>x. readable (env_store_bincode env) (content (ix_store ix3)) x" using assms(4) by (simp add: ix3 ix2 ix1)
  moreover have "decodable (env_codec env) (view_of env tcontent ix3)" using d1 by (simp add: decodable_def ix3 ix2)
  ultimately obtain ix' where "move_pending_modifications_to_store env (hdr_number tagged) ix3 = Some (Inr (), ix')"
    using move_spec [OF bk, of "hdr_number tagged"] index_trees_available_axioms by auto
  then show ?thesis
    using logs tag pend hs w1 w2 w3 by (auto simp: index_range_def ix_bind_def ix_result_def ix3 ix2 ix1)
qed

lemma index_ranges_succeed:
  assumes "\<And>k. node_ready env (node k) ix bound"
    and "\<And>r. r \<in> set rs \<Longrightarrow> (of_nat (fst r) :: u64) \<le> of_nat (snd r) \<and> of_nat (snd r) \<le> bound"
    and "block_keys (env_codec env) (tcontent (block_hash_tree ix))"
    and "\<And>x. readable (env_store_bincode env) (content (ix_store ix)) x"
    and "decodable (env_codec env) (view_of env tcontent ix)"
  shows "\<exists>ix'. index_ranges env node k rs ix = Some (Inr (), ix')"
  using assms
proof (induction rs arbitrary: k ix)
  case (Cons r rs)
  let ?a = "of_nat (fst r) :: u64"
  let ?b = "of_nat (snd r) :: u64"
  have r: "?a \<le> ?b" "?b \<le> bound" using Cons.prems(2) [of r] by simp_all
  have ready: "node_ready env (node k) ix ?b"
    using Cons.prems(1) [of k] r(2) unfolding node_ready_def by (meson order_trans)
  then have dist: "distinct (map log_position logs)" if "get_logs_in (node k) (state_oracle ix) ?a ?b = Inr logs" for logs
    using that unfolding node_ready_def by (metis order_refl sum.inject(2))
  obtain ix1 where i: "index_range env (node k) ?a ?b ix = Some (Inr (), ix1)"
    using index_range_succeeds [OF ready r(1) Cons.prems(3,4,5)] by blast
  from index_range_ok [OF i r(1) Cons.prems(3,4) dist] have n:
    "block_keys (env_codec env) (tcontent (block_hash_tree ix1))"
    "\<forall>x. readable (env_store_bincode env) (content (ix_store ix1)) x"
    "decodable (env_codec env) (view_of env tcontent ix1)"
    "state_oracle ix1 = state_oracle ix" "ix_executor_config ix1 = ix_executor_config ix" "await_tag ix1 = await_tag ix"
    using Cons.prems(5) by blast+
  have "node_ready env (node k) ix1 bound" for k
    using Cons.prems(1) [of k] n(4-6) by (simp add: node_ready_def)
  from Cons.IH [OF this _ n(1) _ n(3)] Cons.prems(2) n(2) i show ?case by (simp add: ix_bind_def)
qed simp

lemma sync_succeeds_lemma:
  assumes "\<And>k. node_ready env (node k) ix (ub_block_number upd)" and "head_is env tcontent ix head"
    and "\<And>l. last_indexed_is env tcontent ix l \<Longrightarrow> check_if_reorged (node 0) upd l = Some (Inr False)"
    and "0 < max_blocks" and "unat (ub_block_number upd) + unat max_blocks < 2 ^ 64"
    and "block_keys (env_codec env) (tcontent (block_hash_tree ix))"
    and "\<And>x. readable (env_store_bincode env) (content (ix_store ix)) x"
    and "decodable (env_codec env) (view_of env tcontent ix)"
  shows "\<exists>ix'. sync env node upd max_blocks ix = Some (Inr (), ix')"
proof -
  obtain v where g: "tree_get (env_trees env) (latest_block_tree ix) (empty_key (env_codec env)) = Inr v"
    using get_returns by blast
  from get_entry [OF g] assms(2,3) have s: "sync_start env (node 0) upd ix = Some (Inr head, ix)"
    by (auto simp: sync_start_def get_last_indexed_block_num_hash_def g head_is_def last_indexed_is_def
        split: option.splits sum.splits)
  have "(of_nat (fst r) :: u64) \<le> of_nat (snd r) \<and> of_nat (snd r) \<le> ub_block_number upd"
    if "r \<in> set (range_chunks (unat max_blocks) (unat head) (unat (ub_block_number upd)))" for r
  proof -
    note b = range_chunks_bounds [OF that]
    have "unat (of_nat i :: u64) = i" if "i \<le> unat (ub_block_number upd)" for i
      using that unsigned_less [of "ub_block_number upd", where 'a = nat] by (simp add: unat_of_nat)
    with b show ?thesis by (simp add: word_le_nat_alt)
  qed
  from index_ranges_succeed [OF assms(1) this assms(6,7,8)]
  show ?thesis by (simp add: sync_def s ix_bind_def sync_loop_ranges [OF assms(4,5)])
qed

end

end
