(* ===== verification/Running.thy ===== *)
theory Running
  imports ChainSync
begin

text \<open>
  The running indexer, \<^verbatim>\<open>Indexer::run\<close> and \<^verbatim>\<open>sync_to_head\<close> of \<^verbatim>\<open>src/store/indexer.rs\<close>.
  No operation, failing ones included, changes the indexer's settings; \<open>handled\<close> is the step relation of
  the blocks a run has handled so far, and every state it reaches follows the chain of the block
  handled last.  A run whose subscription closes returns.
\<close>

section \<open>Settings\<close>

text \<open>The fields no operation writes, but for \<open>is_synced\<close> at the end of \<^verbatim>\<open>sync_to_head\<close>.\<close>

definition settings :: "('t, 's) indexer \<Rightarrow> address \<times> executor_config \<times> block_tag \<times> bool" where
  "settings ix = (state_oracle ix, ix_executor_config ix, await_tag ix, is_synced ix)"

definition keeps :: "('e, 'a, ('t, 's) indexer) step_result \<Rightarrow> ('t, 's) indexer \<Rightarrow> bool" where
  "keeps m ix \<longleftrightarrow> (\<forall>r ix'. m = Some (r, ix') \<longrightarrow> settings ix' = settings ix)"

lemma settings_update [simp]:
  "settings (ix\<lparr>block_hash_tree := t\<rparr>) = settings ix"
  "settings (ix\<lparr>pending_modifications_tree := t\<rparr>) = settings ix"
  "settings (ix\<lparr>latest_block_tree := t\<rparr>) = settings ix"
  "settings (ix\<lparr>ix_store := s\<rparr>) = settings ix"
  by (simp_all add: settings_def)

lemma keeps_Some [simp]: "keeps (Some (r, ix')) ix \<longleftrightarrow> settings ix' = settings ix"
  by (simp add: keeps_def)

lemma keeps_None [simp]: "keeps None ix"
  by (simp add: keeps_def)

lemma keeps_result [simp]: "keeps (ix_result r ix') ix \<longleftrightarrow> settings ix' = settings ix"
  by (simp add: ix_result_def)

lemma keeps_bind:
  assumes "keeps m ix" and "\<And>a ix1. settings ix1 = settings ix \<Longrightarrow> keeps (f a ix1) ix1"
  shows "keeps (ix_bind m f) ix"
proof (cases m)
  case (Some x)
  obtain r ix1 where x: "x = (r, ix1)" by (cases x)
  with assms(1) Some have s: "settings ix1 = settings ix" by simp
  with assms(2) [OF s] show ?thesis by (cases r) (simp_all add: Some x ix_bind_def keeps_def)
qed (simp add: ix_bind_def)

lemma prune_to_loop_keeps: "keeps (prune_to_loop env k mods ix) ix"
proof -
  have "settings (snd y) = settings ix" if "prune_to_loop env k mods ix = Some y" for y
    by (rule prune_to_loop.raw_induct [where P = "\<lambda>env k mods ix y. settings (snd y) = settings ix", OF _ that])
      (fastforce split: sum.splits option.splits prod.splits)
  then show ?thesis by (auto simp: keeps_def)
qed

lemma prune_from_loop_keeps: "keeps (prune_from_loop env k ix) ix"
proof -
  have "settings (snd y) = settings ix" if "prune_from_loop env k ix = Some y" for y
    by (rule prune_from_loop.raw_induct [where P = "\<lambda>env k ix y. settings (snd y) = settings ix", OF _ that])
      (fastforce split: sum.splits option.splits prod.splits)
  then show ?thesis by (auto simp: keeps_def)
qed

lemma write_keeps:
  "keeps (insert_last_indexed_block_num_hash env b ix) ix"
  "keeps (write_block_num_hash_batch env bs ix) ix"
  "keeps (write_pending_modifications env pending ix) ix"
  "keeps (prune_to env to ix) ix"
  "keeps (prune_from env from_block ix) ix"
  by (auto simp: insert_last_indexed_block_num_hash_def write_block_num_hash_batch_def
      write_pending_modifications_def prune_to_def prune_from_def prune_to_loop_keeps prune_from_loop_keeps
      Let_def case_prod_beta split: sum.split)

lemma move_keeps: "keeps (move_pending_modifications_to_store env ub ix) ix"
  by (auto simp: move_pending_modifications_to_store_def write_keeps intro!: keeps_bind
      split: option.split)

lemma index_range_keeps: "keeps (index_range env p a b ix) ix"
  unfolding index_range_def
  by (intro keeps_bind) (simp_all add: write_keeps move_keeps)

lemma sync_start_keeps: "keeps (sync_start env p upd ix) ix"
  by (auto simp: sync_start_def undo_reorg_def write_keeps intro!: keeps_bind
      split: option.split sum.split)

lemma sync_loop_keeps: "keeps (sync_loop env node k upd m a ix) ix"
proof -
  have "settings (snd y) = settings ix" if "sync_loop env node k upd m a ix = Some y" for y
    by (rule sync_loop.raw_induct [where P = "\<lambda>env node k upd m a ix y. settings (snd y) = settings ix", OF _ that])
      (use index_range_keeps in \<open>fastforce simp: keeps_def Let_def split: if_splits sum.splits option.splits prod.splits\<close>)
  then show ?thesis by (auto simp: keeps_def)
qed

lemma sync_keeps: "keeps (sync env node upd max_blocks ix) ix"
  unfolding sync_def by (rule keeps_bind [OF sync_start_keeps sync_loop_keeps])

lemma handle_keeps: "handle_latest_block env node blk ix = Some (r, ix') \<Longrightarrow> settings ix' = settings ix"
  using sync_keeps [of env node "header_update blk" MAX_BLOCKS_PER_CALL ix] by (simp add: keeps_def handle_latest_block_def)

section \<open>The blocks a run has handled\<close>

inductive handled :: "('t, 'k, 'v, 's, 'w, 'e, 'm, 'x, 'h) indexer_env \<Rightarrow> (nat \<Rightarrow> nat \<Rightarrow> 'e rpc) \<Rightarrow>
    (nat \<Rightarrow> ('e, block_header) result) \<Rightarrow> ('t, 's) indexer \<Rightarrow> nat \<Rightarrow> ('t, 's) indexer \<Rightarrow> bool"
  for env node stream ix0 where
  handled_none: "handled env node stream ix0 0 ix0"
| handled_block: "handled env node stream ix0 n ix \<Longrightarrow> stream n = Inr blk \<Longrightarrow>
    handle_latest_block env (node n) blk ix = Some (Inr u, ix') \<Longrightarrow> handled env node stream ix0 (Suc n) ix'"

inductive_cases handled_noneE: "handled env node stream ix0 0 ix"

inductive_simps handled_Suc: "handled env node stream ix0 (Suc n) ix"

text \<open>A run is deterministic: the state after \<open>n\<close> blocks is unique.\<close>

lemma handled_deterministic:
  "handled env node stream ix0 n ix \<Longrightarrow> handled env node stream ix0 n ix' \<Longrightarrow> ix' = ix"
proof (induction arbitrary: ix' rule: handled.induct)
  case handled_none
  then show ?case by (rule handled_noneE)
next
  case (handled_block n ix blk u ix1)
  from handled_block.prems obtain ix2 blk' u' where h: "handled env node stream ix0 n ix2" "stream n = Inr blk'"
    "handle_latest_block env (node n) blk' ix2 = Some (Inr u', ix')" by (auto simp: handled_Suc)
  with handled_block.IH [OF h(1)] handled_block.hyps(2,3) show ?case by simp
qed

lemma handled_keys:
  assumes "indexed_store env tcontent content"
  shows "handled env node stream ix0 n ix \<Longrightarrow> block_keys (env_codec env) (tcontent (block_hash_tree ix0)) \<Longrightarrow>
    block_keys (env_codec env) (tcontent (block_hash_tree ix))"
proof (induction rule: handled.induct)
  case (handled_block n ix blk u ix')
  with indexed_store.sync_keys [OF assms, of ix "node n" "header_update blk" MAX_BLOCKS_PER_CALL]
  show ?case by (simp add: handle_latest_block_def)
qed

lemma run_loop_resumes:
  "handled env node stream ix0 n ix \<Longrightarrow> run_loop env node stream 0 ix0 = run_loop env node stream n ix"
proof (induction rule: handled.induct)
  case (handled_block n ix blk u ix')
  then show ?case by (simp add: run_loop.simps [of env node stream n ix])
qed simp

lemma handled_settings: "handled env node stream ix0 n ix \<Longrightarrow> settings ix = settings ix0"
  by (induction rule: handled.induct) (simp_all add: handle_keeps)

text \<open>A node that delivers a block: it serves one chain and the block's events, and the block number is in reach.\<close>

definition delivers :: "(nat \<Rightarrow> 'e rpc) \<Rightarrow> address \<Rightarrow> rpc_log list \<Rightarrow> block_header \<Rightarrow> bool" where
  "delivers p oracle logs blk \<longleftrightarrow> chain_provider (p 0) \<and>
     unat (hdr_number blk) + unat MAX_BLOCKS_PER_CALL < 2 ^ 64 \<and>
     (\<forall>k. serves_logs (p k) oracle logs) \<and> distinct (map log_position logs)"

text \<open>Two chains, the indexed one and that of the new block, have the same events below a block they share.\<close>

definition shares_history :: "('t, 'k, 'v, 's, 'w, 'e, 'm, 'x, 'h) indexer_env \<Rightarrow> ('t \<Rightarrow> 'k \<rightharpoonup> 'v) \<Rightarrow> 'e rpc \<Rightarrow>
    update_block \<Rightarrow> rpc_log list \<Rightarrow> rpc_log list \<Rightarrow> ('t, 's) indexer \<Rightarrow> bool" where
  "shares_history env tcontent p upd old_logs new_logs ix \<longleftrightarrow>
     (\<forall>blk. ancestor p (ub_parent_hash upd) blk \<and> block_indexed env tcontent (block_hash_tree ix) blk \<longrightarrow>
        agree_below env (ix_executor_config ix) old_logs new_logs (hdr_number blk + 1)) \<and>
     (\<forall>l head. last_indexed_is env tcontent ix l \<and> check_if_reorged p upd l = Some (Inr False) \<and>
        head_is env tcontent ix head \<longrightarrow> agree_below env (ix_executor_config ix) old_logs new_logs head)"

lemma max_blocks_positive [simp]: "0 < MAX_BLOCKS_PER_CALL"
  by (simp add: MAX_BLOCKS_PER_CALL_def)

context indexed_store
begin

lemma handle_follows:
  assumes "follows_chain env tcontent content old_logs st moved head ix"
    and "handle_latest_block env node blk ix = Some (Inr u, ix')" and "delivers node (state_oracle ix) new_logs blk"
    and "shares_history env tcontent (node 0) (header_update blk) old_logs new_logs ix"
  shows "\<exists>moved' head'. moved \<le> moved' \<and> follows_chain env tcontent content new_logs st moved' head' ix' \<and>
    hdr_number blk < head'"
proof -
  have "head_is env tcontent ix head" using assms(1) by (simp add: follows_chain_def)
  with sync_follows [OF assms(1) assms(2) [unfolded handle_latest_block_def], of new_logs] assms(3,4)
  show ?thesis by (fastforce simp: delivers_def shares_history_def header_update_def)
qed

text \<open>Blocks in the store stay: the chain of every block handled has the events of the moved blocks.\<close>

lemma handle_agrees:
  assumes "follows_chain env tcontent content old_logs st moved head ix"
    and "handle_latest_block env node blk ix = Some (Inr u, ix')" and "delivers node (state_oracle ix) new_logs blk"
    and "shares_history env tcontent (node 0) (header_update blk) old_logs new_logs ix"
  shows "agree_below env (ix_executor_config ix) old_logs new_logs moved"
proof -
  have "head_is env tcontent ix head" using assms(1) by (simp add: follows_chain_def)
  moreover from assms(2) obtain start ix1 where "sync_start env (node 0) (header_update blk) ix = Some (Inr start, ix1)"
    by (auto simp: handle_latest_block_def sync_def ix_bind_ok)
  ultimately show ?thesis
    using sync_start_agrees [OF assms(1), of "node 0" "header_update blk" start ix1 new_logs] assms(3,4)
    by (auto simp: delivers_def shares_history_def)
qed

lemma handle_returns:
  assumes "block_keys (env_codec env) (tcontent (block_hash_tree ix))" and "delivers node oracle logs blk"
  shows "returns (handle_latest_block env node blk ix)
    (\<lambda>_ ix'. block_keys (env_codec env) (tcontent (block_hash_tree ix')))"
proof -
  have d: "chain_provider (node 0)" "unat (ub_block_number (header_update blk)) + unat MAX_BLOCKS_PER_CALL < 2 ^ 64"
    using assms(2) by (simp_all add: delivers_def header_update_def)
  show ?thesis
    unfolding handle_latest_block_def sync_def sync_loop_ranges [OF max_blocks_positive d(2)]
    by (rule returns_bind [OF sync_start_returns [OF assms(1) d(1)]]) (rule index_ranges_return)
qed

lemma handled_follows:
  assumes "handled env node stream ix0 n ix" and "follows_chain env tcontent content (logs 0) st moved head ix0"
    and "\<And>n blk. stream n = Inr blk \<Longrightarrow> delivers (node n) (state_oracle ix0) (logs (Suc n)) blk"
    and "\<And>n blk ix. handled env node stream ix0 n ix \<Longrightarrow> stream n = Inr blk \<Longrightarrow>
      shares_history env tcontent (node n 0) (header_update blk) (logs n) (logs (Suc n)) ix"
  shows "\<exists>moved' head'. moved \<le> moved' \<and> follows_chain env tcontent content (logs n) st moved' head' ix \<and>
    (\<forall>m blk. n = Suc m \<and> stream m = Inr blk \<longrightarrow> hdr_number blk < head')"
  using assms(1)
proof (induction rule: handled.induct)
  case handled_none
  with assms(2) show ?case by blast
next
  case (handled_block n ix blk u ix')
  then obtain moved1 head1 where m: "moved \<le> moved1"
    and f: "follows_chain env tcontent content (logs n) st moved1 head1 ix" by blast
  have "state_oracle ix = state_oracle ix0"
    using handled_settings [OF handled_block.hyps(1)] by (simp add: settings_def)
  with assms(3) [OF handled_block.hyps(2)] have "delivers (node n) (state_oracle ix) (logs (Suc n)) blk" by simp
  from handle_follows [OF f handled_block.hyps(3) this assms(4) [OF handled_block.hyps(1,2)]] m handled_block.hyps(2)
  show ?case by (metis Inr_inject nat.inject order.trans)
qed

lemma handled_agrees:
  assumes "handled env node stream ix0 n ix" and "follows_chain env tcontent content (logs 0) st moved head ix0"
    and "\<And>n blk. stream n = Inr blk \<Longrightarrow> delivers (node n) (state_oracle ix0) (logs (Suc n)) blk"
    and "\<And>n blk ix. handled env node stream ix0 n ix \<Longrightarrow> stream n = Inr blk \<Longrightarrow>
      shares_history env tcontent (node n 0) (header_update blk) (logs n) (logs (Suc n)) ix"
  shows "agree_below env (ix_executor_config ix0) (logs 0) (logs n) moved"
  using assms(1)
proof (induction rule: handled.induct)
  case handled_none
  show ?case by (simp add: agree_below_def)
next
  case (handled_block n ix blk u ix')
  from handled_follows [OF handled_block.hyps(1) assms(2-4)] obtain moved1 head1 where m: "moved \<le> moved1"
    and f: "follows_chain env tcontent content (logs n) st moved1 head1 ix" by blast
  have s: "state_oracle ix = state_oracle ix0" "ix_executor_config ix = ix_executor_config ix0"
    using handled_settings [OF handled_block.hyps(1)] by (simp_all add: settings_def)
  with assms(3) [OF handled_block.hyps(2)] have "delivers (node n) (state_oracle ix) (logs (Suc n)) blk" by simp
  from handle_agrees [OF f handled_block.hyps(3) this assms(4) [OF handled_block.hyps(1,2)]]
  have "agree_below env (ix_executor_config ix0) (logs n) (logs (Suc n)) moved1" unfolding s .
  from agree_below_trans [OF handled_block.IH agree_below_le [OF this m]] show ?case .
qed

lemma run_loop_stops:
  assumes "handled env node stream ix0 n ix" and "n \<le> N" and "stream N = Inl e"
    and "block_keys (env_codec env) (tcontent (block_hash_tree ix))"
    and "\<And>n blk. stream n = Inr blk \<Longrightarrow> delivers (node n) oracle (logs (Suc n)) blk"
  shows "\<exists>m ix1 err ix'. m \<le> N \<and> handled env node stream ix0 m ix1 \<and>
    run_loop env node stream 0 ix0 = Some (Inl err, ix') \<and>
    (case stream m of Inl x \<Rightarrow> err = BlockStreamError x \<and> ix' = ix1
     | Inr blk \<Rightarrow> handle_latest_block env (node m) blk ix1 = Some (Inl err, ix'))"
  using assms(2,1,4)
proof (induction n arbitrary: ix rule: inc_induct)
  case base
  then show ?case
    using assms(3) run_loop_resumes [OF base(1)] by (auto simp: run_loop.simps [of env node stream N])
next
  case (step n)
  note resume = run_loop_resumes [OF step.prems(1)]
  show ?case
  proof (cases "stream n")
    case (Inl x)
    with step resume show ?thesis by (auto simp: run_loop.simps [of env node stream n ix] intro!: exI [of _ n])
  next
    case (Inr blk)
    from handle_returns [OF step.prems(2) assms(5) [OF Inr]] obtain r ix'
      where r: "handle_latest_block env (node n) blk ix = Some (r, ix')"
      and k: "\<And>u. r = Inr u \<Longrightarrow> block_keys (env_codec env) (tcontent (block_hash_tree ix'))"
      by (auto simp: returns_def)
    show ?thesis
    proof (cases r)
      case (Inl err)
      with Inr r step resume show ?thesis by (auto simp: run_loop.simps [of env node stream n ix] intro!: exI [of _ n])
    next
      case ok: (Inr u)
      show ?thesis by (rule step.IH [OF handled_block [OF step.prems(1) Inr r [unfolded ok]] k [OF ok]])
    qed
  qed
qed

text \<open>Syncing to the head establishes what a run starts from.\<close>

lemma sync_to_head_follows:
  assumes "follows_chain env tcontent content old_logs st moved head ix"
    and "sync_to_head env p node ix = Some (Inr u, ix')" and "get_block_by_number p TagLatest = Inr (Some blk)"
    and "delivers node (state_oracle ix) new_logs blk"
    and "shares_history env tcontent (node 0) (header_update blk) old_logs new_logs ix"
  shows "is_synced ix' \<and> (\<exists>moved' head'. moved \<le> moved' \<and>
    follows_chain env tcontent content new_logs st moved' head' ix' \<and> hdr_number blk < head')"
proof -
  from assms(2,3) obtain ix1 where s: "handle_latest_block env node blk ix = Some (Inr (), ix1)"
    and ix': "ix' = ix1\<lparr>is_synced := True\<rparr>"
    by (auto simp: sync_to_head_def ix_bind_ok handle_latest_block_def)
  have "follows_chain env tcontent content logs st m h ix' \<longleftrightarrow> follows_chain env tcontent content logs st m h ix1" for logs m h
    by (simp add: ix' follows_chain_def head_is_def view_of_def)
  with handle_follows [OF assms(1) s assms(4,5)] show ?thesis by (simp add: ix')
qed

end

end
