(* ===== verification/Indexing.thy ===== *)
theory Indexing
  imports Running
begin

text \<open>
  The properties of the indexer, and a concrete environment they are applied to: trees and store
  held in lists and maps, a chain of blocks without forks, and an event decoder, DA service and
  extractor that always answer.
\<close>

section \<open>A concrete environment\<close>

definition sample_node :: "nat \<Rightarrow> rpc_log list \<Rightarrow> unit rpc" where
  "sample_node n logs = (sample_chain n)
     \<lparr>get_block_by_number := \<lambda>t. Inr (case t of
          TagNumber i \<Rightarrow> Some \<lparr>hdr_number = i, hdr_hash = ucast i + 1, hdr_parent_hash = ucast i\<rparr>
        | _ \<Rightarrow> Some \<lparr>hdr_number = of_nat n - 1, hdr_hash = of_nat n, hdr_parent_hash = of_nat n - 1\<rparr>),
      get_logs_in := \<lambda>_ a b. Inr (filter (log_between a b) logs)\<rparr>"

definition sample_oracle_abi :: "unit state_oracle_abi" where
  "sample_oracle_abi =
     \<lparr>added_SIGNATURE_HASH = 1, added_decode_topics = \<lambda>_. Inr (),
      added_decode_data = \<lambda>bs. Inr \<lparr>added_contractAddress = 7, added_assertionId = 4, added_activeAtBlock = 3\<rparr>,
      removed_SIGNATURE_HASH = 2, removed_decode_topics = \<lambda>_. Inr (),
      removed_decode_data = \<lambda>bs. Inr \<lparr>removed_contractAddress = 7, removed_assertionId = 4, removed_activeAtBlock = 9\<rparr>\<rparr>"

definition sample_index_env ::
  "(list_tree, u256, index_value, bytes \<Rightarrow> assertion_state list option, assertion_state list, unit, unit, unit, nat) indexer_env" where
  "sample_index_env =
     \<lparr>env_trees = list_tree_ops, env_codec = plain_codec, env_events = sample_oracle_abi,
      env_fetch_assertion = \<lambda>_. Inr \<lparr>da_bytecode = [1], da_encoded_constructor_args = [2]\<rparr>,
      env_extract = sample_extract_env, env_store_ops = map_sled, env_store_bincode = plain_bincode,
      env_store_interference = \<lambda>_ _ s. s, env_store_iter = rev\<rparr>"

definition sample_indexer :: "block_tag \<Rightarrow> (list_tree, bytes \<Rightarrow> assertion_state list option) indexer" where
  "sample_indexer tag = indexer_new \<lparr>icfg_state_oracle = 5, icfg_executor_config = executor_config_default 17,
     icfg_store = Map.empty, icfg_block_hash_tree = [], icfg_latest_block_tree = [],
     icfg_pending_modifications_tree = [], icfg_await_tag = tag\<rparr>"

definition sample_log :: rpc_log where
  "sample_log = \<lparr>rl_topics = [1], rl_data = [0], rl_block_number = Some 1, rl_log_index = Some 0\<rparr>"

definition sample_update :: update_block where
  "sample_update = \<lparr>ub_block_number = 2, ub_block_hash = 3, ub_parent_hash = 2\<rparr>"

text \<open>One block arrives, then the subscription closes.\<close>

definition sample_stream :: "nat \<Rightarrow> (unit, block_header) result" where
  "sample_stream n = (if n = 0 then Inr \<lparr>hdr_number = 2, hdr_hash = 3, hdr_parent_hash = 2\<rparr> else Inl ())"

definition sample_running :: "(list_tree, bytes \<Rightarrow> assertion_state list option) indexer" where
  "sample_running = (sample_indexer BlockTagLatest)\<lparr>is_synced := True\<rparr>"

lemma sample_env_sel [simp]:
  "env_trees sample_index_env = list_tree_ops" "env_codec sample_index_env = plain_codec"
  "env_store_ops sample_index_env = map_sled" "env_store_bincode sample_index_env = plain_bincode"
  "env_store_interference sample_index_env = (\<lambda>_ _ s. s)" "env_store_iter sample_index_env = rev"
  by (simp_all add: sample_index_env_def)

interpretation sample_index: indexer_available sample_index_env map_of "\<lambda>m. m"
  unfolding indexer_available_def indexed_store_def indexed_def indexed_store_axioms_def sample_env_sel
  using list_trees.index_trees_axioms list_trees.index_trees_available_axioms map_db.assertion_db_available_axioms
  by simp

interpretation sample_node_chain: chain_provider "sample_node n logs"
  using sample_chain.own_hash sample_chain.parent_number
  by unfold_locales (auto simp: sample_node_def)

interpretation sample_chain_index: chain_indexer sample_index_env map_of "sample_node n logs"
  by unfold_locales

lemma sample_serves: "serves_logs (sample_node n logs) oracle logs"
  by (simp add: serves_logs_def sample_node_def)

lemma sample_contents [simp]:
  "block_hash_tree (sample_indexer tag) = []" "latest_block_tree (sample_indexer tag) = []"
  "pending_modifications_tree (sample_indexer tag) = []" "ix_store (sample_indexer tag) = Map.empty"
  "await_tag (sample_indexer tag) = tag"
  by (simp_all add: sample_indexer_def indexer_new_def)

lemma sample_view: "view_of sample_index_env map_of (sample_indexer tag) = \<lparr>iv_hashes = \<lambda>_. None, iv_pending = \<lambda>_. None\<rparr>"
  by (simp add: view_of_def entry_at_def fun_eq_iff split: sum.split)

lemma sample_follows: "follows_chain sample_index_env map_of (\<lambda>m. m) logs (\<lambda>_. []) 0 0 (sample_indexer tag)"
  by (simp add: follows_chain_def head_is_def sample_view view_mods_def chain_mods_def block_keys_def fun_eq_iff stored_def)

lemma sample_extract:
  "\<exists>c. extract_assertion_contract sample_extract_env code config = Inr (c, \<lparr>recorded_triggers = [(AllCalls, [9])]\<rparr>) \<and>
     ac_id c = of_nat (length code)"
proof -
  have "snd (trigger_recorder_call sample_recorder_abi enc \<lparr>recorded_triggers = []\<rparr>
      (sample_call TRIGGER_RECORDER [0, 0, 0, 1, 0, 0, 0, 9])) = \<lparr>recorded_triggers = [(AllCalls, [9])]\<rparr>" for enc
    by (simp add: trigger_recorder_call_def record_trigger_def sample_call_def sample_recorder_abi_def
        input_selector_def selector_from_slice_def add_trigger_def hm_entry_def hm_insert_def hs_insert_def)
  then show ?thesis
    by (simp add: extract_assertion_contract_def sample_extract_env_def triggers_evm_def new_evm_def new_ctx_and_handler_cfg_def
        trec.run_events_fold)
qed

lemma sample_modification:
  obtains c where "\<And>config. extract_pending_modifications sample_index_env config sample_log 0 =
      Inr (Some (AddMod 7 c \<lparr>recorded_triggers = [(AllCalls, [9])]\<rparr> 3 0))" and "ac_id c = 2"
proof -
  have "\<exists>c. \<forall>config. extract_assertion_contract sample_extract_env [1, 2] config =
      Inr (c, \<lparr>recorded_triggers = [(AllCalls, [9])]\<rparr>) \<and> ac_id c = 2"
    using sample_extract [of "[1, 2]"]
    by (auto simp: extract_assertion_contract_def sample_extract_env_def triggers_evm_def new_evm_def
        new_ctx_and_handler_cfg_def trec.run_events_fold)
  then obtain c where c: "\<And>config. extract_assertion_contract sample_extract_env [1, 2] config =
      Inr (c, \<lparr>recorded_triggers = [(AllCalls, [9])]\<rparr>)" "ac_id c = 2" by blast
  show thesis
    by (rule that [of c]) (simp_all add: extract_pending_modifications_def sample_index_env_def sample_log_def
        sample_oracle_abi_def c try_into_u64_def)
qed

lemma sample_ready: "node_ready sample_index_env (sample_node n [sample_log]) (sample_indexer tag) bound"
proof -
  have "log_processed sample_index_env config sample_log" for config
    using sample_modification by (metis log_processed_def sample_log_def rpc_log.select_convs(3,4))
  moreover have "\<exists>hdr. get_block_by_number (sample_node n [sample_log]) t = Inr (Some hdr)" for t
    by (cases t) (simp_all add: sample_node_def)
  ultimately show ?thesis by (auto simp: node_ready_def sample_node_def)
qed

lemma sample_not_indexed: "\<not> last_indexed_is sample_index_env map_of (sample_indexer tag) l"
  by (simp add: last_indexed_is_def)

lemma sample_syncs:
  "\<exists>ix'. sync sample_index_env (\<lambda>_. sample_node n [sample_log]) sample_update 2 (sample_indexer tag) = Some (Inr (), ix')"
proof (rule sample_index.sync_succeeds_lemma [OF sample_ready])
  show "head_is sample_index_env map_of (sample_indexer tag) 0" by (simp add: head_is_def)
qed (auto simp: sample_update_def sample_not_indexed block_keys_def decodable_def sample_view)

lemma sample_running_trees [simp]:
  "block_hash_tree sample_running = []" "latest_block_tree sample_running = []"
  "ix_store sample_running = Map.empty" "is_synced sample_running"
  by (simp_all add: sample_running_def)

lemma sample_running_view: "view_of sample_index_env map_of sample_running = \<lparr>iv_hashes = \<lambda>_. None, iv_pending = \<lambda>_. None\<rparr>"
  using sample_view [of BlockTagLatest] by (simp add: view_of_def sample_running_def)

lemma sample_running_handles:
  "\<exists>ix'. handle_latest_block sample_index_env (\<lambda>_. sample_node 3 [sample_log])
    \<lparr>hdr_number = 2, hdr_hash = 3, hdr_parent_hash = 2\<rparr> sample_running = Some (Inr (), ix')"
  unfolding handle_latest_block_def
proof (rule sample_index.sync_succeeds_lemma)
  show "head_is sample_index_env map_of sample_running 0" by (simp add: head_is_def)
  show "node_ready sample_index_env (sample_node 3 [sample_log]) sample_running bound" for bound
    using sample_ready [of 3 BlockTagLatest bound] by (simp add: node_ready_def sample_running_def)
qed (auto simp: header_update_def MAX_BLOCKS_PER_CALL_def last_indexed_is_def block_keys_def decodable_def sample_running_view)

lemma run_loop_error:
  assumes "run_loop env node stream n ix = Some y"
  shows "\<exists>e. fst y = Inl e"
  by (rule run_loop.raw_induct [where P = "\<lambda>env node stream n ix y. \<exists>e. fst y = Inl e", OF _ assms])
    (fastforce split: sum.splits option.splits prod.splits)

lemma fold_needs_processed:
  "result_fold (process_log env config) acc logs = Inr pending \<Longrightarrow> list_all (log_processed env config) logs"
  by (induction logs arbitrary: acc) (auto simp: result_eqs process_log_def log_processed_def)

section \<open>Properties\<close>

text \<open>C12. The indexer follows the chain, through reorgs too.  Before a sync the store holds the
  modifications of the blocks below \<open>moved\<close> of one chain, in chain order, and the index the blocks from
  there to the head.  After a successful sync the same holds for the chain of the new block: its
  blocks are indexed up to that block, the bound never goes down, it never passes what the
  awaited block allows, and it reaches it.  The two chains are only required to have the same
  events below a block they share.\<close>

theorem sync_follows_chain:
  assumes "indexed_store env tcontent content"
    and "follows_chain env tcontent content old_logs st moved head ix"
    and "sync env node upd max_blocks ix = Some (Inr u, ix')" and "chain_provider (node 0)"
    and "0 < max_blocks" and "unat (ub_block_number upd) + unat max_blocks < 2 ^ 64"
    and "\<And>k. serves_logs (node k) (state_oracle ix) new_logs" and "distinct (map log_position new_logs)"
    and "\<And>blk. ancestor (node 0) (ub_parent_hash upd) blk \<Longrightarrow> block_indexed env tcontent (block_hash_tree ix) blk \<Longrightarrow>
      agree_below env (ix_executor_config ix) old_logs new_logs (hdr_number blk + 1)"
    and "\<And>l. last_indexed_is env tcontent ix l \<Longrightarrow> check_if_reorged (node 0) upd l = Some (Inr False) \<Longrightarrow>
      agree_below env (ix_executor_config ix) old_logs new_logs head"
  shows "\<exists>moved' head'. moved \<le> moved' \<and> follows_chain env tcontent content new_logs st moved' head' ix' \<and>
    (\<forall>bound. awaited_below node (await_tag ix) bound \<longrightarrow> moved' \<le> max moved bound) \<and>
    ub_block_number upd < head' \<and>
    (head \<le> ub_block_number upd \<longrightarrow> head' = ub_block_number upd + 1 \<and>
      awaited_reached node (await_tag ix) head' moved')"
  using assms(2-) by (rule indexed_store.sync_follows [OF assms(1)])

text \<open>C16. A sync returns, whatever the number of blocks: with a positive number of blocks per call, a block
  number that stays in 64 bits when that number is added, a store nobody else writes to meanwhile, and a
  node that serves a chain, it ends with a result or an error, also when trees, services or decoders
  fail.  (With no blocks per call the loop can start at the same block for ever.)\<close>

theorem sync_terminates:
  assumes "indexed_store env tcontent content" and "chain_provider (node 0)"
    and "block_keys (env_codec env) (tcontent (block_hash_tree ix))"
    and "0 < max_blocks" and "unat (ub_block_number upd) + unat max_blocks < 2 ^ 64"
  shows "\<exists>r ix'. sync env node upd max_blocks ix = Some (r, ix')"
proof -
  have "returns (sync env node upd max_blocks ix) (\<lambda>_ _. True)"
    unfolding sync_def sync_loop_ranges [OF assms(4,5)]
    by (rule returns_bind [OF indexed_store.sync_start_returns [OF assms(1,3,2)]])
      (rule returns_weaken [OF indexed_store.index_ranges_return [OF assms(1)]], simp_all)
  then show ?thesis by (auto simp: returns_def)
qed

text \<open>C17. A sync makes progress: when the trees, the store, the node, the DA service and the decoders
  answer and the new block extends the indexed chain, the sync succeeds.\<close>

theorem sync_succeeds:
  assumes "indexer_available env tcontent content"
    and "\<And>k. node_ready env (node k) ix (ub_block_number upd)" and "head_is env tcontent ix head"
    and "\<And>l. last_indexed_is env tcontent ix l \<Longrightarrow> check_if_reorged (node 0) upd l = Some (Inr False)"
    and "0 < max_blocks" and "unat (ub_block_number upd) + unat max_blocks < 2 ^ 64"
    and "block_keys (env_codec env) (tcontent (block_hash_tree ix))"
    and "\<And>x. readable (env_store_bincode env) (content (ix_store ix)) x"
    and "decodable (env_codec env) (view_of env tcontent ix)"
  shows "\<exists>ix'. sync env node upd max_blocks ix = Some (Inr (), ix')"
  using assms(2-) by (rule indexer_available.sync_succeeds_lemma [OF assms(1)])

text \<open>C19. The loop of a sync is the reference splitting: the blocks are indexed in consecutive
  ranges, none of more than the allowed number of blocks, that together are exactly the blocks
  from the start to the new block.\<close>

theorem sync_loop_splits:
  assumes "0 < max_blocks" and "unat upd + unat max_blocks < 2 ^ 64"
  shows "sync_loop env node k upd max_blocks start ix =
      index_ranges env node k (range_chunks (unat max_blocks) (unat start) (unat upd)) ix \<and>
    concat (map (\<lambda>r. [fst r ..< Suc (snd r)]) (range_chunks (unat max_blocks) (unat start) (unat upd))) =
      [unat start ..< Suc (unat upd)] \<and>
    (\<forall>r \<in> set (range_chunks (unat max_blocks) (unat start) (unat upd)).
      fst r \<le> snd r \<and> snd r < fst r + unat max_blocks)"
proof -
  have "0 < unat max_blocks" using assms(1) by (simp add: word_less_nat_alt)
  with sync_loop_ranges [OF assms] range_chunks_cover range_chunks_bounds show ?thesis by blast
qed

text \<open>C13. Indexing a range is exact.  The index afterwards has, for every block of the range, the hash the
  node reports and the modifications of the block's logs in log order, is unchanged for all other
  blocks, and then loses the blocks up to the awaited one, whose modifications, oldest block
  first, are applied to the store; the last block of the range is recorded as indexed.\<close>

theorem index_range_exact:
  assumes "indexed_store env tcontent content" and "index_range env p a b ix = Some (Inr u, ix')" and "a \<le> b"
    and "block_keys (env_codec env) (tcontent (block_hash_tree ix))"
    and "\<And>x. readable (env_store_bincode env) (content (ix_store ix)) x"
    and "\<And>logs. get_logs_in p (state_oracle ix) a b = Inr logs \<Longrightarrow> distinct (map log_position logs)"
  shows "\<exists>logs tagged hdr w. get_logs_in p (state_oracle ix) a b = Inr logs \<and>
    get_block_by_number p (block_tag_into (await_tag ix)) = Inr (Some tagged) \<and>
    get_block_by_number p (TagNumber b) = Inr (Some hdr) \<and>
    view_indexes env (ix_executor_config ix) p logs a b (view_of env tcontent ix) w \<and>
    view_of env tcontent ix' = view_move (hdr_number tagged) w \<and>
    stored (env_store_bincode env) (content (ix_store ix')) =
      fold abstract_apply (moved_mods (env_codec env) (hdr_number tagged) w)
        (stored (env_store_bincode env) (content (ix_store ix))) \<and>
    last_indexed_is env tcontent ix' \<lparr>bnh_number = b, bnh_hash = hdr_hash hdr\<rparr>"
  using indexed_store.index_range_ok [OF assms] by blast

text \<open>C14. The search for the common ancestor always ends, and returns the highest block of the new
  branch that is indexed, every block of the new branch above it being indexed with another hash; with
  working trees it fails only when a height that is not indexed lies above every shared block.\<close>

theorem find_common_ancestor_highest:
  assumes "index_trees (env_trees env) (env_codec env) tcontent" and "chain_provider p"
  shows "\<exists>r. find_common_ancestor env p t h = Some r \<and> (case r of
      Inr n \<Rightarrow> (\<exists>blk. ancestor p h blk \<and> hdr_number blk = n \<and> block_indexed env tcontent t blk) \<and>
        (\<forall>blk. ancestor p h blk \<and> n < hdr_number blk \<longrightarrow>
           height_indexed env tcontent t blk \<and> \<not> block_indexed env tcontent t blk)
    | Inl _ \<Rightarrow> index_trees_available (env_trees env) (env_codec env) tcontent \<longrightarrow>
        (\<forall>blk. ancestor p h blk \<and> block_indexed env tcontent t blk \<longrightarrow>
           (\<exists>blk'. ancestor p h blk' \<and> hdr_number blk < hdr_number blk' \<and> \<not> height_indexed env tcontent t blk')))"
proof -
  have "chain_indexer env tcontent p"
    using assms by (simp add: chain_indexer_def indexed_def)
  from chain_indexer.common_ancestor_spec [OF this, of t h] obtain r
    where "find_common_ancestor env p t h = Some r" "ancestor_result env tcontent t {blk. ancestor p h blk} r" by blast
  then show ?thesis by (cases r) (auto simp: ancestor_result_def)
qed

text \<open>C20. A reorg that reaches into the moved blocks stops the indexer: when no block of the new branch at or
  above the moved bound is indexed (in particular whenever everything indexed has been moved, as it is
  when the latest block is awaited), the sync fails without changing anything, although the two
  branches share the blocks below.\<close>

theorem reorg_below_moved_fails:
  assumes "indexed_store env tcontent content" and "chain_provider (node 0)"
    and "follows_chain env tcontent content old_logs st moved head ix"
    and "get_last_indexed_block_num_hash env ix = Inr (Some l)"
    and "check_if_reorged (node 0) upd l = Some (Inr True)"
    and "\<And>blk. ancestor (node 0) (ub_parent_hash upd) blk \<Longrightarrow> moved \<le> hdr_number blk \<Longrightarrow>
      \<not> block_indexed env tcontent (block_hash_tree ix) blk"
  shows "\<exists>e. sync env node upd max_blocks ix = Some (Inl e, ix)"
proof -
  have ci: "chain_indexer env tcontent (node 0)"
    using assms(1,2) by (simp add: chain_indexer_def indexed_store_def)
  from chain_indexer.common_ancestor_spec [OF this, of "block_hash_tree ix" "ub_parent_hash upd"] obtain r
    where r: "find_common_ancestor env (node 0) (block_hash_tree ix) (ub_parent_hash upd) = Some r"
      "ancestor_result env tcontent (block_hash_tree ix) {blk. ancestor (node 0) (ub_parent_hash upd) blk} r" by blast
  have "\<not> block_indexed env tcontent (block_hash_tree ix) blk" if "\<not> moved \<le> hdr_number blk" for blk
  proof -
    have "iv_hashes (view_of env tcontent ix) (hdr_number blk) = None"
      using assms(3) that unfolding follows_chain_def by blast
    then show ?thesis by (simp add: block_indexed_def hash_is_def view_of_def)
  qed
  with r(2) assms(6) obtain e where "r = Inl e" by (cases r) (auto simp: ancestor_result_def)
  with r(1) assms(4,5) show ?thesis by (simp add: sync_def sync_start_def undo_reorg_def ix_bind_def)
qed

text \<open>C21. A log that cannot be processed (fields missing, undecodable, not served by the DA service, a block number
  over 64 bits) fails the whole range before anything is written, so that the next sync starts at
  the same block.\<close>

theorem index_range_log_failure:
  assumes "get_logs_in p (state_oracle ix) a b = Inr logs" and "l \<in> set logs"
    and "\<not> log_processed env (ix_executor_config ix) l"
  shows "\<exists>e. index_range env p a b ix = Some (Inl e, ix)"
proof -
  have "\<not> list_all (log_processed env (ix_executor_config ix)) logs" using assms(2,3) by (auto simp: list_all_iff)
  then obtain e where "result_fold (process_log env (ix_executor_config ix)) [] logs = Inl e"
    using fold_needs_processed by (metis sum.exhaust)
  with assms(1) show ?thesis by (simp add: index_range_def ix_bind_def ix_result_def)
qed

text \<open>C18. The nested ordered maps of the log loop are the reference: whatever order the node returns the logs in, a block has
  an entry exactly when it has modifications, and its entry lists them in log order.\<close>

theorem modifications_in_log_order:
  assumes "result_fold (process_log env config) [] logs = Inr pending" and "distinct (map log_position logs)"
  shows "bt_ok pending \<and> map_of pending n = (if block_modifications env config logs n = [] then None
    else Some (block_modifications env config logs n))"
  using collected_modifications [OF assms] by blast

text \<open>C22. The indexer's block hash tree stays a tree of block numbers.  Every operation that returns a value (writing,
  pruning, moving, indexing a range, undoing a reorg, starting a sync, syncing in any number of ranges, handling a
  block, syncing to the head, building a synced indexer) leaves it with nothing but block number keys, and so
  does every block a run handles.  The single steps return whatever happens, the ones that walk the chain
  when the node serves one.\<close>

theorem index_stays_block_keyed:
  assumes "indexed_store env tcontent content" and "block_keys (env_codec env) (tcontent (block_hash_tree ix))"
  shows "returns (write_block_num_hash_batch env hashes ix) (keyed env tcontent) \<and>
    returns (write_pending_modifications env pending ix) (keyed env tcontent) \<and>
    returns (insert_last_indexed_block_num_hash env b ix) (keyed env tcontent) \<and>
    returns (prune_to env to ix) (keyed env tcontent) \<and> returns (prune_from env from_block ix) (keyed env tcontent) \<and>
    returns (move_pending_modifications_to_store env ub ix) (keyed env tcontent) \<and>
    returns (index_range env p from_block to ix) (keyed env tcontent) \<and>
    (chain_provider p \<longrightarrow>
      returns (undo_reorg env p upd ix) (keyed env tcontent) \<and> returns (sync_start env p upd ix) (keyed env tcontent)) \<and>
    leaves_keys env tcontent (undo_reorg env p upd ix) \<and> leaves_keys env tcontent (sync_start env p upd ix) \<and>
    leaves_keys env tcontent (sync_loop env node k upd_number max_blocks from_block ix) \<and>
    leaves_keys env tcontent (sync env node upd max_blocks ix) \<and>
    leaves_keys env tcontent (handle_latest_block env node blk ix) \<and>
    leaves_keys env tcontent (sync_to_head env p node ix) \<and>
    (icfg_block_hash_tree cfg = block_hash_tree ix \<longrightarrow> leaves_keys env tcontent (new_synced env p node cfg)) \<and>
    (\<forall>n ix'. handled env nodes stream ix n ix' \<longrightarrow> keyed env tcontent n ix')"
proof -
  note st = assms(1) and bk = assms(2)
  have ix: "indexed env tcontent" using st by (simp add: indexed_store_def)
  have "returns (write_pending_modifications env pending ix) (keyed env tcontent)"
    and "returns (insert_last_indexed_block_num_hash env b ix) (keyed env tcontent)"
    by (rule returns_weaken [OF write_pending_returns] returns_weaken [OF insert_last_returns], simp add: bk)+
  moreover have "icfg_block_hash_tree cfg = block_hash_tree ix \<longrightarrow> leaves_keys env tcontent (new_synced env p node cfg)"
  proof
    assume "icfg_block_hash_tree cfg = block_hash_tree ix"
    with bk have "block_keys (env_codec env) (tcontent (block_hash_tree (indexer_new cfg)))" by (simp add: indexer_new_def)
    then show "leaves_keys env tcontent (new_synced env p node cfg)"
      unfolding new_synced_def by (rule indexed_store.sync_to_head_keys [OF st])
  qed
  moreover have "leaves_keys env tcontent (handle_latest_block env node blk ix)"
    unfolding handle_latest_block_def by (rule indexed_store.sync_keys [OF st bk])
  moreover have "\<forall>n ix'. handled env nodes stream ix n ix' \<longrightarrow> keyed env tcontent n ix'"
    using handled_keys [OF st _ bk] by blast
  moreover note indexed.write_hashes_returns [OF ix bk] indexed.prune_to_returns [OF ix bk] indexed.prune_from_returns [OF ix bk]
    indexed_store.move_returns [OF st bk] indexed_store.index_range_returns [OF st bk]
    indexed_store.undo_reorg_returns [OF st bk] indexed_store.sync_start_returns [OF st bk]
    indexed_store.sync_start_keys [OF st bk] sync_loop_keys [OF st bk] indexed_store.sync_keys [OF st bk]
    indexed_store.sync_to_head_keys [OF st bk]
  ultimately show ?thesis by simp
qed

text \<open>Running ends only with an error: an indexer that is not synced is refused at once and left as it
  is, and a synced one follows new blocks until the subscription or a sync fails.\<close>

lemma run_ends_with_error:
  assumes "run env subscription node ix = Some (r, ix')"
  shows "(\<exists>e. r = Inl e) \<and> (\<not> is_synced ix \<longrightarrow> r = Inl StoreNotSynced \<and> ix' = ix)"
  using assms run_loop_error [of env node] by (fastforce simp: run_def split: if_splits sum.splits)

text \<open>C23. A synced indexer follows the block subscription.  Blocks arrive, each with its chain and events, and the
  subscription closes at some point: the run returns, with the error of the closed subscription or of the
  first block it could not handle, and in the state before that the store and the index follow the chain
  of the block handled last, whatever reorganisations there were in between, the store having lost nothing it had.\<close>

theorem run_follows_chain:
  assumes "indexed_store env tcontent content" and "is_synced ix"
    and "follows_chain env tcontent content (logs 0) st moved head ix"
    and "\<And>n blk. stream n = Inr blk \<Longrightarrow> delivers (node n) (state_oracle ix) (logs (Suc n)) blk"
    and "\<And>n blk ix1. handled env node stream ix n ix1 \<Longrightarrow> stream n = Inr blk \<Longrightarrow>
      shares_history env tcontent (node n 0) (header_update blk) (logs n) (logs (Suc n)) ix1"
    and "stream N = Inl e"
  shows "\<exists>n ix1 moved' head' err ix'. n \<le> N \<and> handled env node stream ix n ix1 \<and>
    moved \<le> moved' \<and> follows_chain env tcontent content (logs n) st moved' head' ix1 \<and>
    (\<forall>m blk. n = Suc m \<and> stream m = Inr blk \<longrightarrow> hdr_number blk < head') \<and>
    run env (Inr stream) node ix = Some (Inl err, ix') \<and>
    (case stream n of
       Inl x \<Rightarrow> err = BlockStreamError x \<and> ix' = ix1
     | Inr blk \<Rightarrow> handle_latest_block env (node n) blk ix1 = Some (Inl err, ix'))"
proof -
  have "block_keys (env_codec env) (tcontent (block_hash_tree ix))"
    using assms(3) by (simp add: follows_chain_def)
  from indexed_store.run_loop_stops [where logs = logs and stream = stream and N = N, OF assms(1) handled_none _ assms(6) this assms(4)]
  obtain n ix1 err ix' where n: "n \<le> N" "handled env node stream ix n ix1"
    "run_loop env node stream 0 ix = Some (Inl err, ix')"
    "case stream n of Inl x \<Rightarrow> err = BlockStreamError x \<and> ix' = ix1
     | Inr blk \<Rightarrow> handle_latest_block env (node n) blk ix1 = Some (Inl err, ix')" by blast
  moreover have "run env (Inr stream) node ix = Some (Inl err, ix')"
    using assms(2) n(3) by (simp add: run_def)
  ultimately show ?thesis
    using indexed_store.handled_follows [OF assms(1) n(2) assms(3-5)] by meson
qed

text \<open>Modifications the store refuses are gone: they have left the index before the store is written.\<close>

lemma store_failure_loses_modifications:
  assumes "index_trees (env_trees env) (env_codec env) tcontent"
    and "block_keys (env_codec env) (tcontent (block_hash_tree ix))" and "ub \<noteq> 0"
    and "prune_to env (ub + 1) ix = Some (Inr mods, ix1)" and "mods \<noteq> []"
    and "apply_pending_modifications (env_store_ops env) (env_store_bincode env) (env_store_interference env)
      (env_store_iter env) mods (ix_store ix1) = Some (Inl e, s)"
  shows "\<exists>ix'. move_pending_modifications_to_store env ub ix = Some (Inl (AssertionStoreError e), ix') \<and>
    mods = mods_below (env_codec env) (view_of env tcontent ix) (ub + 1) \<and>
    view_of env tcontent ix' = view_prune_to (ub + 1) (view_of env tcontent ix)"
proof -
  have "indexed env tcontent" using assms(1) by (simp add: indexed_def)
  from indexed.prune_to_spec [OF this assms(2), of "ub + 1"] assms(4)
  have "mods = mods_below (env_codec env) (view_of env tcontent ix) (ub + 1)"
    "view_of env tcontent ix1 = view_prune_to (ub + 1) (view_of env tcontent ix)" by auto
  moreover have "view_of env tcontent (ix1\<lparr>ix_store := s\<rparr>) = view_of env tcontent ix1" by (simp add: view_of_def)
  ultimately show ?thesis using assms(3-6)
    by (simp add: move_pending_modifications_to_store_def ix_bind_def)
qed

section \<open>Witnesses\<close>

text \<open>A chain of three blocks with one event in block 1, synced from nothing in ranges of two.\<close>

lemma sample_positions: "distinct (map log_position [sample_log])"
  by simp

lemma sample_latest:
  "get_block_by_number (sample_node 3 logs) TagLatest =
     Inr (Some \<lparr>hdr_number = 2, hdr_hash = 3, hdr_parent_hash = 2\<rparr>)"
  by (simp add: sample_node_def)

theorem sync_follows_chain_witness:
  "\<exists>ix' moved'. sync sample_index_env (\<lambda>_. sample_node 3 [sample_log]) sample_update 2 (sample_indexer BlockTagLatest) =
      Some (Inr (), ix') \<and> 3 \<le> moved' \<and>
    follows_chain sample_index_env map_of (\<lambda>m. m) [sample_log] (\<lambda>_. []) moved' 3 ix'"
proof -
  let ?node = "\<lambda>_ :: nat. sample_node 3 [sample_log]"
  obtain ix' where s: "sync sample_index_env ?node sample_update 2 (sample_indexer BlockTagLatest) = Some (Inr (), ix')"
    using sample_syncs by blast
  have "\<exists>moved' head'. 0 \<le> moved' \<and>
      follows_chain sample_index_env map_of (\<lambda>m. m) [sample_log] (\<lambda>_. []) moved' head' ix' \<and>
      (\<forall>bound. awaited_below ?node (await_tag (sample_indexer BlockTagLatest)) bound \<longrightarrow> moved' \<le> max 0 bound) \<and>
      ub_block_number sample_update < head' \<and>
      (0 \<le> ub_block_number sample_update \<longrightarrow> head' = ub_block_number sample_update + 1 \<and>
        awaited_reached ?node (await_tag (sample_indexer BlockTagLatest)) head' moved')"
    by (rule sync_follows_chain [OF sample_index.indexed_store_axioms sample_follows s
        sample_node_chain.chain_provider_axioms _ _ sample_serves sample_positions])
      (auto simp: sample_update_def agree_below_def)
  then show ?thesis using s by (auto simp: sample_update_def sample_latest move_bound_def awaited_reached_def)
qed

theorem sync_terminates_witness:
  "\<exists>r ix'. sync sample_index_env (\<lambda>_. sample_node 3 [sample_log]) sample_update 2 (sample_indexer BlockTagSafe) = Some (r, ix')"
  by (rule sync_terminates [OF sample_index.indexed_store_axioms sample_node_chain.chain_provider_axioms])
    (simp_all add: block_keys_def sample_update_def)

theorem sync_succeeds_witness:
  "\<exists>ix'. sync sample_index_env (\<lambda>_. sample_node 3 [sample_log]) sample_update 2 (sample_indexer BlockTagFinalized) = Some (Inr (), ix')"
proof (rule sync_succeeds [OF sample_index.indexer_available_axioms sample_ready])
  show "head_is sample_index_env map_of (sample_indexer BlockTagFinalized) 0" by (simp add: head_is_def)
qed (auto simp: sample_update_def sample_not_indexed block_keys_def decodable_def sample_view)

theorem sync_loop_splits_witness:
  "sync_loop sample_index_env (\<lambda>_. sample_node 3 []) 1 2 2 0 (sample_indexer BlockTagLatest) =
    index_ranges sample_index_env (\<lambda>_. sample_node 3 []) 1 [(0, 1), (2, 2)] (sample_indexer BlockTagLatest)"
proof -
  have "range_chunks 2 0 2 = [(0, 1), (2, 2)]" by (simp add: range_chunks.simps)
  with sync_loop_splits [of 2 2 sample_index_env "\<lambda>_. sample_node 3 []" 1 0 "sample_indexer BlockTagLatest"] show ?thesis by simp
qed

theorem index_range_exact_witness:
  "\<exists>ix'. index_range sample_index_env (sample_node 3 [sample_log]) 0 1 (sample_indexer BlockTagLatest) = Some (Inr (), ix') \<and>
    last_indexed_is sample_index_env map_of ix' \<lparr>bnh_number = 1, bnh_hash = 2\<rparr>"
proof -
  obtain ix' where i: "index_range sample_index_env (sample_node 3 [sample_log]) 0 1 (sample_indexer BlockTagLatest) = Some (Inr (), ix')"
    using sample_index.index_range_succeeds [OF sample_ready, where a = 0 and b = 1]
    by (auto simp: block_keys_def decodable_def sample_view)
  have "\<exists>logs tagged hdr w. get_logs_in (sample_node 3 [sample_log]) (state_oracle (sample_indexer BlockTagLatest)) 0 1 = Inr logs \<and>
    get_block_by_number (sample_node 3 [sample_log]) (block_tag_into (await_tag (sample_indexer BlockTagLatest))) = Inr (Some tagged) \<and>
    get_block_by_number (sample_node 3 [sample_log]) (TagNumber 1) = Inr (Some hdr) \<and>
    view_indexes sample_index_env (ix_executor_config (sample_indexer BlockTagLatest)) (sample_node 3 [sample_log]) logs 0 1
      (view_of sample_index_env map_of (sample_indexer BlockTagLatest)) w \<and>
    view_of sample_index_env map_of ix' = view_move (hdr_number tagged) w \<and>
    stored (env_store_bincode sample_index_env) (ix_store ix') =
      fold abstract_apply (moved_mods (env_codec sample_index_env) (hdr_number tagged) w)
        (stored (env_store_bincode sample_index_env) (ix_store (sample_indexer BlockTagLatest))) \<and>
    last_indexed_is sample_index_env map_of ix' \<lparr>bnh_number = 1, bnh_hash = hdr_hash hdr\<rparr>"
    by (rule index_range_exact [OF sample_index.indexed_store_axioms i])
      (auto simp: block_keys_def sample_node_def sample_log_def)
  moreover have "get_block_by_number (sample_node 3 [sample_log]) (TagNumber 1) =
      Inr (Some \<lparr>hdr_number = 1, hdr_hash = 2, hdr_parent_hash = 1\<rparr>)" by (simp add: sample_node_def)
  ultimately show ?thesis using i by fastforce
qed

text \<open>A branch that leaves the indexed one after block 1.\<close>

theorem find_common_ancestor_highest_witness:
  "find_common_ancestor sample_index_env (sample_node 4 []) [(0, HashValue 1), (1, HashValue 2), (2, HashValue 9)] 3 = Some (Inr 1) \<and>
    (\<exists>blk. ancestor (sample_node 4 []) 3 blk \<and> hdr_number blk = 1 \<and>
      block_indexed sample_index_env map_of [(0, HashValue 1), (1, HashValue 2), (2, HashValue 9)] blk)"
proof -
  have "find_common_ancestor sample_index_env (sample_node 4 []) [(0, HashValue 1), (1, HashValue 2), (2, HashValue 9)] 3 = Some (Inr 1)"
    by (simp add: find_common_ancestor.simps sample_node_def sample_chain_def ser_u64_def plain_codec_def list_tree_ops_def)
  moreover from this find_common_ancestor_highest [OF sample_index.index_trees_axioms sample_node_chain.chain_provider_axioms [of 4 "[]"],
      where t = "[(0, HashValue 1), (1, HashValue 2), (2, HashValue 9)]" and h = 3]
  have "\<exists>blk. ancestor (sample_node 4 []) 3 blk \<and> hdr_number blk = 1 \<and>
      block_indexed sample_index_env map_of [(0, HashValue 1), (1, HashValue 2), (2, HashValue 9)] blk" by simp
  ultimately show ?thesis by simp
qed

text \<open>Everything moved up to block 2, and a different block 2 arrives.\<close>

theorem reorg_below_moved_fails_witness:
  "\<exists>e. sync sample_index_env (\<lambda>_. sample_node 3 []) \<lparr>ub_block_number = 2, ub_block_hash = 8, ub_parent_hash = 2\<rparr> 2
      ((sample_indexer BlockTagLatest)\<lparr>latest_block_tree := [(0, NumHashValue \<lparr>bnh_number = 2, bnh_hash = 3\<rparr>)]\<rparr>) =
    Some (Inl e, (sample_indexer BlockTagLatest)\<lparr>latest_block_tree := [(0, NumHashValue \<lparr>bnh_number = 2, bnh_hash = 3\<rparr>)]\<rparr>)"
  (is "\<exists>e. sync _ _ ?upd _ ?ix = _")
proof (rule reorg_below_moved_fails [OF sample_index.indexed_store_axioms sample_node_chain.chain_provider_axioms])
  show "follows_chain sample_index_env map_of (\<lambda>m. m) [] (\<lambda>_. []) 3 3 ?ix"
    by (simp add: follows_chain_def head_is_def plain_codec_def view_of_def entry_at_def ser_u64_def view_mods_def
        chain_mods_def block_modifications_def List.map_filter_def block_keys_def stored_def fun_eq_iff map_replicate_const not_less)
  show "get_last_indexed_block_num_hash sample_index_env ?ix = Inr (Some \<lparr>bnh_number = 2, bnh_hash = 3\<rparr>)"
    by (simp add: get_last_indexed_block_num_hash_def list_tree_ops_def plain_codec_def)
  show "check_if_reorged (sample_node 3 []) ?upd \<lparr>bnh_number = 2, bnh_hash = 3\<rparr> = Some (Inr True)"
    by (simp add: check_if_reorged_def)
  show "\<not> block_indexed sample_index_env map_of (block_hash_tree ?ix) blk" for blk
    by (simp add: block_indexed_def hash_is_def entry_at_def ser_u64_def plain_codec_def)
qed

theorem index_range_log_failure_witness:
  "\<exists>e. index_range sample_index_env (sample_node 3 [sample_log\<lparr>rl_log_index := None\<rparr>]) 0 1 (sample_indexer BlockTagLatest) =
    Some (Inl e, sample_indexer BlockTagLatest)"
  by (rule index_range_log_failure [where l = "sample_log\<lparr>rl_log_index := None\<rparr>" and logs = "[sample_log\<lparr>rl_log_index := None\<rparr>]"])
    (simp_all add: sample_node_def sample_log_def log_between_def log_processed_def)

theorem modifications_in_log_order_witness:
  "\<exists>pending c. result_fold (process_log sample_index_env (executor_config_default 17)) [] [sample_log] = Inr pending \<and>
    map_of pending 1 = Some [(0, AddMod 7 c \<lparr>recorded_triggers = [(AllCalls, [9])]\<rparr> 3 0)]"
proof -
  obtain c where c: "\<And>config. extract_pending_modifications sample_index_env config sample_log 0 =
      Inr (Some (AddMod 7 c \<lparr>recorded_triggers = [(AllCalls, [9])]\<rparr> 3 0))" "ac_id c = 2" by (rule sample_modification) (rule that)
  have "rl_log_index sample_log = Some 0" "rl_block_number sample_log = Some 1" by (simp_all add: sample_log_def)
  with c(1) have b: "block_modifications sample_index_env (executor_config_default 17) [sample_log] 1 =
      [(0, AddMod 7 c \<lparr>recorded_triggers = [(AllCalls, [9])]\<rparr> 3 0)]"
    and "list_all (log_processed sample_index_env (executor_config_default 17)) [sample_log]"
    by (simp_all add: block_modifications_def List.map_filter_def log_modification_def log_processed_def)
  from process_logs_succeed [OF this(2)] obtain pending where
    p: "result_fold (process_log sample_index_env (executor_config_default 17)) [] [sample_log] = Inr pending" by blast
  from modifications_in_log_order [OF p sample_positions, of 1] b p show ?thesis by auto
qed

theorem index_stays_block_keyed_witness:
  "returns (index_range sample_index_env (sample_node 3 []) 0 1 (sample_indexer BlockTagLatest))
    (keyed sample_index_env map_of) \<and>
   leaves_keys sample_index_env map_of (sync sample_index_env (\<lambda>_. sample_node 3 []) sample_update 0 (sample_indexer BlockTagLatest))"
  using index_stays_block_keyed [OF sample_index.indexed_store_axioms, where ix = "sample_indexer BlockTagLatest"]
  by (simp add: block_keys_def)

theorem run_follows_chain_witness:
  "\<exists>ix' moved' head'. run sample_index_env (Inr sample_stream) (\<lambda>_ _. sample_node 3 [sample_log]) sample_running =
      Some (Inl (BlockStreamError ()), ix') \<and> 2 < head' \<and>
    follows_chain sample_index_env map_of (\<lambda>m. m) [sample_log] (\<lambda>_. []) moved' head' ix'"
proof -
  let ?node = "\<lambda>(_ :: nat) (_ :: nat). sample_node 3 [sample_log]"
  have f: "follows_chain sample_index_env map_of (\<lambda>m. m) [sample_log] (\<lambda>_. []) 0 0 sample_running"
    using sample_follows [of "[sample_log]" BlockTagLatest]
    by (simp add: follows_chain_def head_is_def view_of_def sample_running_def)
  have "\<exists>n ix1 moved' head' err ix'. n \<le> 1 \<and> handled sample_index_env ?node sample_stream sample_running n ix1 \<and>
    0 \<le> moved' \<and> follows_chain sample_index_env map_of (\<lambda>m. m) [sample_log] (\<lambda>_. []) moved' head' ix1 \<and>
    (\<forall>m blk. n = Suc m \<and> sample_stream m = Inr blk \<longrightarrow> hdr_number blk < head') \<and>
    run sample_index_env (Inr sample_stream) ?node sample_running = Some (Inl err, ix') \<and>
    (case sample_stream n of
       Inl x \<Rightarrow> err = BlockStreamError x \<and> ix' = ix1
     | Inr blk \<Rightarrow> handle_latest_block sample_index_env (?node n) blk ix1 = Some (Inl err, ix'))"
    by (rule run_follows_chain [where logs = "\<lambda>_. [sample_log]", OF sample_index.indexed_store_axioms _ f])
      (auto simp: delivers_def shares_history_def agree_below_def sample_stream_def sample_serves MAX_BLOCKS_PER_CALL_def
        sample_node_chain.chain_provider_axioms split: if_splits)
  then obtain n ix1 moved' head' err ix' where n: "n \<le> 1" "handled sample_index_env ?node sample_stream sample_running n ix1"
    "follows_chain sample_index_env map_of (\<lambda>m. m) [sample_log] (\<lambda>_. []) moved' head' ix1"
    "\<forall>m blk. n = Suc m \<and> sample_stream m = Inr blk \<longrightarrow> hdr_number blk < head'"
    "run sample_index_env (Inr sample_stream) ?node sample_running = Some (Inl err, ix')"
    "case sample_stream n of Inl x \<Rightarrow> err = BlockStreamError x \<and> ix' = ix1
     | Inr blk \<Rightarrow> handle_latest_block sample_index_env (?node n) blk ix1 = Some (Inl err, ix')" by blast
  have "n \<noteq> 0"
  proof
    assume "n = 0"
    with n(2) have "ix1 = sample_running" by (auto elim: handled_noneE)
    with n(6) \<open>n = 0\<close> sample_running_handles show False by (auto simp: sample_stream_def)
  qed
  with n(1) have "n = Suc 0" by simp
  with n(4) have "2 < head'" by (auto simp: sample_stream_def)
  with n(3,5,6) \<open>n = Suc 0\<close> show ?thesis by (auto simp: sample_stream_def)
qed

end
