(* ===== verification/Spec2Isabelle.thy ===== *)
theory Spec2Isabelle
  imports Overlay Executor Indexing
begin

text \<open>
  \<^bold>\<open>assertion-executor: a verification development.\<close>

  The crate decides whether a transaction may enter a block.  Contracts (\<^emph>\<open>adopters\<close>) register
  assertions through events of the state oracle contract; an assertion is a contract with functions that
  revert when an invariant of the adopter is broken.  The \<^emph>\<open>indexer\<close> follows the chain, fetches the
  code of each added assertion, extracts its triggers and writes the change to the \<^emph>\<open>assertion
  store\<close> once the block is old enough.  The \<^emph>\<open>executor\<close> runs a transaction on a fork of the state with a
  \<^emph>\<open>call tracer\<close>, reads from the store the assertion functions whose triggers fired, runs each of
  them in an EVM that can switch between the state before and after the transaction
  (\<^emph>\<open>multi-fork database\<close>, \<^emph>\<open>PhEvm precompiles\<close>), and commits the transaction only when all of them
  succeed.  Reads go through a shared cache, the \<^emph>\<open>overlay\<close>.

  \<^bold>\<open>Theories and the code they model\<close> (paths below \<^verbatim>\<open>src/src\<close>).

  \<^item> \<open>Prelude\<close>: machine types, \<^verbatim>\<open>Result\<close>, \<^verbatim>\<open>HashMap\<close> and \<^verbatim>\<open>HashSet\<close>, byte conversions, and the contract of an update
    folded over a hash map (independence of the iteration order).
  \<^item> \<open>Primitives\<close> (\<^verbatim>\<open>primitives.rs\<close>): the crate's own types, revm's account and journal types with the
    fields the crate uses, and the merging of block changes.
  \<^item> \<open>ForkDb\<close> (\<^verbatim>\<open>db/fork_db.rs\<close>): reads and commits of a fork.  What a read returns after a commit, order
    independence, agreement of merged and sequential commits.  \<open>ref_commit\<close> is the abstract commit on
    the answers of a database, \<open>committing_db\<close> the contract of a database that commits that way.
  \<^item> \<open>MockDb\<close> (\<^verbatim>\<open>db/overlay/test_utils.rs\<close>): the database that is written in place and counts its reads.  It meets the same contract as
    the fork, so a fork over it answers as if every commit had been written in place.
  \<^item> \<open>Overlay\<close> (\<^verbatim>\<open>db/overlay/mod.rs\<close>, \<^verbatim>\<open>active_overlay.rs\<close>): the read cache over an evicting
    moka cache.  A read answers as the database below, or from an entry the
    cache held before (a committed one), and reaches the database only on a miss; no read panics.
  \<^item> \<open>MultiFork\<close> (\<^verbatim>\<open>db/multi_fork_db.rs\<close>): the two forks of an assertion, the switch and what it carries over.
  \<^item> \<open>Inspectors\<close>, \<open>Triggers\<close>, \<open>Precompiles\<close> (\<^verbatim>\<open>inspectors/\<close>): hooks of an execution as events, the call tracer, the
    trigger recorder, the PhEvm inspector and its seven precompiles.
  \<^item> \<open>TxEnv\<close> (\<^verbatim>\<open>utils/mod.rs\<close>), \<open>BuildEvm\<close> (\<^verbatim>\<open>build_evm.rs\<close>, \<^verbatim>\<open>executor/config.rs\<close>): transaction environments, EVM
    construction and the repriced storage instructions.
  \<^item> \<open>AssertionStore\<close> (\<^verbatim>\<open>store/mod.rs\<close>, \<^verbatim>\<open>store/assertion_store.rs\<close>): the store over a sled tree, the compare-and-swap loop
    under interference, batches, activity windows and the selection of functions for a transaction.
  \<^item> \<open>Extractor\<close> (\<^verbatim>\<open>store/assertion_contract_extractor.rs\<close>): deployment of an assertion and recording of its triggers.
  \<^item> \<open>Executor\<close> (\<^verbatim>\<open>executor/mod.rs\<close>, \<^verbatim>\<open>error.rs\<close>): the validation of a transaction.  Valid exactly when every selected assertion
    holds, commit exactly when valid, what an assertion sees, totals independent of the parallel schedule.
  \<^item> \<open>Reorg\<close> (\<^verbatim>\<open>utils/reorg_utils.rs\<close>): the reorg check, exact and terminating over any chain.
  \<^item> \<open>Trees\<close>: sled trees ordered by key, bincode and \<^verbatim>\<open>BTreeMap\<close>, with the locales of what they promise.
  \<^item> \<open>Indexer\<close> (\<^verbatim>\<open>store/indexer.rs\<close>): all operations of the indexer, and pruning as updates of the abstract index.
  \<^item> \<open>Syncing\<close>, \<open>ChainSync\<close>, \<open>Running\<close>, \<open>Indexing\<close>: the lemmas and properties of the indexer.  The abstract state \<open>index_view\<close> is the two trees by
    block number; pruning, writing and moving refine updates of it.  \<open>follows_chain\<close> says which blocks of a
    chain are in the store and which wait in the index, and every successful sync preserves it.
    \<open>handled\<close> is the step relation of a run over the block subscription: no step changes the settings, every state
    reached follows the chain of the block handled last, and a run whose subscription closes returns.

  \<^bold>\<open>How the code is modelled.\<close>  Structs are records, enums datatypes, machine integers words (\<^verbatim>\<open>u64\<close> arithmetic wraps, as in a
  release build; theorems exclude the wrap where it would matter).  A \<^verbatim>\<open>Result\<close> is a sum; an operation that
  mutates returns the new state also when it fails.  Loops that need not end (compare-and-swap, walks over
  parents, pruning, syncing, the block subscription) are partial functions in the option monad, where
  \<^const>\<open>None\<close> means that the loop does not return; that they return is proved.  There is no fuel.  What the crate calls but does not
  contain is a parameter with its documented behaviour as a locale or a named hypothesis: sled
  (\<open>sled_ops\<close>, \<open>tree_ops\<close>), bincode, moka, revm's transact, keccak and the ABI layer generated by \<^verbatim>\<open>sol!\<close>,
  the RPC node (\<open>rpc\<close>, \<open>chain_provider\<close>), the DA service.  The laws of a tree speak only about calls that
  succeed; that calls succeed is a separate locale.  Every locale is interpreted on a concrete instance, and the witnesses
  apply the properties there.  Each handler call and each range of a sync may see another state of the node; within one
  range the node is a snapshot.  Hash maps iterate in an arbitrary order, which the theorems do not depend on; the
  parallel assertion runs are an arbitrary schedule; other users of the assertion store are an arbitrary
  environment of the compare-and-swap loop.

  \<^bold>\<open>The theorems that span components\<close> are here: from the event in a log of the chain to the rejection of a transaction that
  violates the assertion, right after a sync and while the indexer runs.

  \<^bold>\<open>Not modelled.\<close>  Logging and tracing, asynchronous scheduling (the futures are awaited one after the
  other), module lists and the empty
  \<^verbatim>\<open>main.rs\<close>, and the test harness (\<^verbatim>\<open>test_utils.rs\<close> at the crate root, \<^verbatim>\<open>tests/\<close>), benches and fuzz targets, which read compiled
  contracts from disk, start nodes and draw random inputs and are not part of the library.  The test modules inside the
  source files are not modelled either.
\<close>

section \<open>From an event to its enforcement\<close>

text \<open>The state of an assertion that has been added and not removed.\<close>

abbreviation added_state :: "assertion_contract \<Rightarrow> trigger_recorder \<Rightarrow> u64 \<Rightarrow> assertion_state" where
  "added_state c r act \<equiv> \<lparr>active_at_block = act, inactive_at_block = None, as_assertion_contract = c, as_trigger_recorder = r\<rparr>"

text \<open>An assertion that is added, possibly more than once in the same way, and not modified otherwise.\<close>

lemma added_once:
  assumes "AddMod a c r act li \<in> set ms \<or> assertion_of (ac_id c) as =
      Some (added_state c r act)"
    and "assertion_of (ac_id c) as \<in> {None,
      Some (added_state c r act)}"
    and "\<And>m. m \<in> set ms \<Longrightarrow> pm_assertion_contract_id m = ac_id c \<Longrightarrow> m = AddMod a c r act li"
  shows "assertion_of (ac_id c) (fold apply_modification ms as) =
    Some (added_state c r act)"
  using assms
proof (induction ms arbitrary: as)
  case (Cons m ms)
  have "assertion_of (ac_id c) (apply_modification m as) = (if m = AddMod a c r act li
      then Some (added_state c r act)
      else assertion_of (ac_id c) as)"
  proof (cases "m = AddMod a c r act li")
    case True
    from Cons.prems(2) show ?thesis
      unfolding True apply_add_assertion_of by (cases "assertion_of (ac_id c) as") auto
  next
    case False
    with Cons.prems(3) [of m] have "pm_assertion_contract_id m \<noteq> ac_id c" by auto
    then have "assertion_of (ac_id c) (apply_modification m as) = assertion_of (ac_id c) as"
      by (cases m) (simp_all add: apply_add_assertion_of apply_remove_assertion_of del: apply_modification.simps)
    with False show ?thesis by simp
  qed
  note step = this
  have "AddMod a c r act li \<in> set ms \<or> assertion_of (ac_id c) (apply_modification m as) =
      Some (added_state c r act)"
    unfolding step using Cons.prems(1) by auto
  moreover have "assertion_of (ac_id c) (apply_modification m as) \<in> {None,
      Some (added_state c r act)}"
    unfolding step using Cons.prems(2) by simp
  ultimately have "assertion_of (ac_id c) (fold apply_modification ms (apply_modification m as)) =
      Some (added_state c r act)"
    by (rule Cons.IH) (use Cons.prems(3) in simp)
  then show ?case by (simp only: fold_simps)
qed auto

text \<open>An active assertion of the store is enforced: a transaction that fires one of its triggers and
  fails it is reported invalid and leaves the fork unchanged.\<close>

lemma stored_assertion_enforced:
  fixes sched :: "('d, 'i, 'b) schedule"
  assumes "assertion_db ops bc content" and "added_state c r act \<in> set (stored bc (content (ex_store ex)) a)"
    and "act \<le> ucast (be_number block)" and "ucast (be_number block) \<noteq> u64_max"
    and "execute_forked_tx_ext_db rv (ex_config ex) block tx fork_db ext =
      (Inr (tracer, ras) :: (('d, 'i, 'b) executor_error, _) result, post, ext')"
    and "er_is_success (ras_result ras)" and "selects r (fired tracer a) s"
    and "validate_transaction_ext_db rv ops bc ex sched block tx fork_db ext = (Inr res, fork_db', ext'')"
    and "\<not> assertion_holds rv (ex_config ex) block (fork_ref fork_db) (fork_ref (fork_commit fork_db (ras_state ras)))
       \<lparr>tx_logs = er_logs (ras_result ras), call_traces = tracer\<rparr> a c s"
  shows "\<not> is_valid res \<and> fork_db' = fork_db"
proof -
  have "is_active (ucast (be_number block)) (added_state c r act)" using assms(3,4) by (simp add: is_active_iff)
  then show ?thesis using validated_iff [OF assms(1,5,6,8)] assms(2,7,9) by fastforce
qed

text \<open>An assertion applied to the store as a pending addition is enforced from its activation block on: a
  transaction that fires one of its triggers and fails it is reported invalid and leaves the
  fork unchanged.\<close>

lemma added_assertion_enforced:
  fixes sched :: "('d, 'i, 'b) schedule"
  assumes "assertion_db_available ops bc content" and "\<And>a. readable bc (content db) a"
    and "\<And>m. mset (iter m) = mset m"
    and "apply_pending_modifications ops bc (\<lambda>_ _ d. d) iter [AddMod a c r act li] db = Some (Inr u, db')"
    and "assertion_of (ac_id c) (stored bc (content db) a) = None"
    and "act \<le> ucast (be_number block)" and "ucast (be_number block) \<noteq> u64_max"
    and "ex_store ex = db'"
    and "execute_forked_tx_ext_db rv (ex_config ex) block tx fork_db ext =
      (Inr (tracer, ras) :: (('d, 'i, 'b) executor_error, _) result, post, ext')"
    and "er_is_success (ras_result ras)" and "selects r (fired tracer a) s"
    and "validate_transaction_ext_db rv ops bc ex sched block tx fork_db ext = (Inr res, fork_db', ext'')"
    and "\<not> assertion_holds rv (ex_config ex) block (fork_ref fork_db) (fork_ref (fork_commit fork_db (ras_state ras)))
       \<lparr>tx_logs = er_logs (ras_result ras), call_traces = tracer\<rparr> a c s"
  shows "\<not> is_valid res \<and> fork_db' = fork_db"
proof -
  from batch_refines [OF assms(1-3), of "[AddMod a c r act li]"] assms(4)
  have "stored bc (content db') = fold abstract_apply [AddMod a c r act li] (stored bc (content db))" by simp
  then have "stored bc (content db') a = apply_modification (AddMod a c r act li) (stored bc (content db) a)"
    by (simp add: abstract_apply_def del: apply_modification.simps)
  then have st: "added_state c r act \<in> set (stored bc (content (ex_store ex)) a)"
    using assms(5,8) by (simp only:) (rule added_in_list)
  have "assertion_db ops bc content" using assms(1) by (simp add: assertion_db_available_def)
  from this st assms(6,7,9-13) show ?thesis by (rule stored_assertion_enforced)
qed

text \<open>An assertion the followed chain adds below the bound of the store, and does not modify otherwise, is
  in the store.\<close>

lemma followed_assertion_stored:
  assumes "follows_chain env tcontent content chain_logs (\<lambda>_. []) moved head ix"
    and added: "(li, AddMod a c r act li) \<in> set (block_modifications env (ix_executor_config ix) chain_logs n)" and "n < moved"
    and only: "\<And>m. m \<in> set (chain_mods env (ix_executor_config ix) chain_logs moved) \<Longrightarrow> pm_assertion_adopter m = a \<Longrightarrow>
      pm_assertion_contract_id m = ac_id c \<Longrightarrow> m = AddMod a c r act li"
  shows "added_state c r act \<in> set (stored (env_store_bincode env) (content (ix_store ix)) a)"
proof -
  let ?mods = "filter (\<lambda>m. pm_assertion_adopter m = a) (chain_mods env (ix_executor_config ix) chain_logs moved)"
  have "AddMod a c r act li \<in> set (chain_mods env (ix_executor_config ix) chain_logs moved)"
    using added \<open>n < moved\<close> unfolding chain_mods_def by force
  then have "assertion_of (ac_id c) (fold apply_modification ?mods []) = Some (added_state c r act)"
    using only by (intro added_once) (auto simp: assertion_of_def)
  moreover have "stored (env_store_bincode env) (content (ix_store ix)) a = fold apply_modification ?mods []"
    using assms(1) by (simp add: follows_chain_def abstract_fold)
  ultimately show ?thesis by (auto simp: assertion_of_def find_Some_iff)
qed

lemma indexed_store_db: "indexed_store env tcontent content \<Longrightarrow> assertion_db (env_store_ops env) (env_store_bincode env) content"
  by (simp add: indexed_store_def assertion_db_available_def)

text \<open>C3. From the event on chain to the verdict: an assertion whose addition is in a log of the followed chain,
  in a block that has been moved to the store, and that no other event of that chain modifies, is
  enforced from its activation block on: a transaction that fires one of its triggers and fails it is
  reported invalid and leaves the fork unchanged.\<close>

theorem indexed_assertion_enforced:
  fixes sched :: "('d, 'e, 'e) schedule"
  assumes "indexed_store env tcontent content"
    and "follows_chain env tcontent content chain_logs (\<lambda>_. []) moved head ix"
    and "l \<in> set chain_logs" and "rl_block_number l = Some n" and "n < moved" and "rl_log_index l = Some li"
    and "extract_pending_modifications env (ix_executor_config ix) l li = Inr (Some (AddMod a c r act li))"
    and "\<And>m. m \<in> set (chain_mods env (ix_executor_config ix) chain_logs moved) \<Longrightarrow> pm_assertion_adopter m = a \<Longrightarrow>
      pm_assertion_contract_id m = ac_id c \<Longrightarrow> m = AddMod a c r act li"
    and "act \<le> ucast (be_number block)" and "ucast (be_number block) \<noteq> u64_max"
    and "ex_store ex = ix_store ix"
    and "execute_forked_tx_ext_db rv (ex_config ex) block tx fork_db ext =
      (Inr (tracer, ras) :: (('d, 'e, 'e) executor_error, _) result, post, ext')"
    and "er_is_success (ras_result ras)" and "selects r (fired tracer a) s"
    and "validate_transaction_ext_db rv (env_store_ops env) (env_store_bincode env) ex sched block tx fork_db ext =
      (Inr res, fork_db', ext'')"
    and "\<not> assertion_holds rv (ex_config ex) block (fork_ref fork_db) (fork_ref (fork_commit fork_db (ras_state ras)))
       \<lparr>tx_logs = er_logs (ras_result ras), call_traces = tracer\<rparr> a c s"
  shows "\<not> is_valid res \<and> fork_db' = fork_db"
proof -
  have "(li, AddMod a c r act li) \<in> set (block_modifications env (ix_executor_config ix) chain_logs n)"
    using assms(3,4,6,7) by (auto simp: set_block_modifications)
  from followed_assertion_stored [OF assms(2) this assms(5,8)] show ?thesis
    using stored_assertion_enforced [OF indexed_store_db [OF assms(1)], where act = act] assms(9-16) by metis
qed

text \<open>C5. Once in the store, an assertion stays enforced while the indexer runs, until another event names it.  Its
  addition is in a moved block of the chain the run started with.  After any number of handled blocks,
  reorganisations included, as long as the chain reached has no other event for the same adopter and assertion (no
  removal, no addition for another block), a transaction that fires one of its triggers at or after its activation
  block and fails it is reported invalid and leaves the fork unchanged: no reorganisation the indexer accepts takes
  the addition back.\<close>

theorem enforced_while_running:
  fixes sched :: "('d, 'e, 'e) schedule"
  assumes "indexed_store env tcontent content"
    and "follows_chain env tcontent content (logs 0) (\<lambda>_. []) moved head ix0"
    and "handled env node stream ix0 k ix"
    and "\<And>i blk. stream i = Inr blk \<Longrightarrow> delivers (node i) (state_oracle ix0) (logs (Suc i)) blk"
    and "\<And>i blk ix1. handled env node stream ix0 i ix1 \<Longrightarrow> stream i = Inr blk \<Longrightarrow>
      shares_history env tcontent (node i 0) (header_update blk) (logs i) (logs (Suc i)) ix1"
    and "l \<in> set (logs 0)" and "rl_block_number l = Some n" and "n < moved" and "rl_log_index l = Some li"
    and "extract_pending_modifications env (ix_executor_config ix0) l li = Inr (Some (AddMod a c r act li))"
    and "\<And>b j m. (j, m) \<in> set (block_modifications env (ix_executor_config ix0) (logs k) b) \<Longrightarrow>
      pm_assertion_adopter m = a \<Longrightarrow> pm_assertion_contract_id m = ac_id c \<Longrightarrow> m = AddMod a c r act li"
    and "act \<le> ucast (be_number block)" and "ucast (be_number block) \<noteq> u64_max"
    and "ex_store ex = ix_store ix"
    and "execute_forked_tx_ext_db rv (ex_config ex) block tx fork_db ext =
      (Inr (tracer, ras) :: (('d, 'e, 'e) executor_error, _) result, post, ext')"
    and "er_is_success (ras_result ras)" and "selects r (fired tracer a) s"
    and "validate_transaction_ext_db rv (env_store_ops env) (env_store_bincode env) ex sched block tx fork_db ext =
      (Inr res, fork_db', ext'')"
    and "\<not> assertion_holds rv (ex_config ex) block (fork_ref fork_db) (fork_ref (fork_commit fork_db (ras_state ras)))
       \<lparr>tx_logs = er_logs (ras_result ras), call_traces = tracer\<rparr> a c s"
  shows "\<not> is_valid res \<and> fork_db' = fork_db"
proof -
  from indexed_store.handled_follows [OF assms(1,3,2,4,5)] obtain moved' head' where "moved \<le> moved'"
    and f: "follows_chain env tcontent content (logs k) (\<lambda>_. []) moved' head' ix" by blast
  then have "n < moved'" using assms(8) by simp
  have config: "ix_executor_config ix = ix_executor_config ix0"
    using handled_settings [OF assms(3)] by (simp add: settings_def)
  have "m = AddMod a c r act li" if "m \<in> set (chain_mods env (ix_executor_config ix) (logs k) moved')"
    "pm_assertion_adopter m = a" "pm_assertion_contract_id m = ac_id c" for m
    using that assms(11) unfolding chain_mods_def config by fastforce
  note only = this
  have "(li, AddMod a c r act li) \<in> set (block_modifications env (ix_executor_config ix) (logs 0) n)"
    using assms(6,7,9,10) by (auto simp: set_block_modifications config)
  also have "block_modifications env (ix_executor_config ix) (logs 0) n = block_modifications env (ix_executor_config ix) (logs k) n"
    using indexed_store.handled_agrees [OF assms(1,3,2,4,5)] assms(8) by (simp add: agree_below_def config)
  finally have "(li, AddMod a c r act li) \<in> set (block_modifications env (ix_executor_config ix) (logs k) n)" .
  from followed_assertion_stored [OF f this \<open>n < moved'\<close> only]
  show ?thesis
    using stored_assertion_enforced [OF indexed_store_db [OF assms(1)], where act = act] assms(12-19) by metis
qed

lemma sample_indexed:
  obtains ix' moved' where "sync sample_index_env (\<lambda>_. sample_node 3 [sample_log]) sample_update 2
      (sample_indexer BlockTagLatest) = Some (Inr (), ix')"
    and "follows_chain sample_index_env map_of (\<lambda>m. m) [sample_log] (\<lambda>_. []) moved' 3 ix'" and "3 \<le> moved'"
proof -
  let ?node = "\<lambda>_ :: nat. sample_node 3 [sample_log]"
  obtain ix' where s: "sync sample_index_env ?node sample_update 2 (sample_indexer BlockTagLatest) = Some (Inr (), ix')"
    using sample_syncs by blast
  have "\<exists>moved' head'. 0 \<le> moved' \<and> follows_chain sample_index_env map_of (\<lambda>m. m) [sample_log] (\<lambda>_. []) moved' head' ix' \<and>
      (\<forall>bound. awaited_below ?node (await_tag (sample_indexer BlockTagLatest)) bound \<longrightarrow> moved' \<le> max 0 bound) \<and>
      ub_block_number sample_update < head' \<and>
      (0 \<le> ub_block_number sample_update \<longrightarrow> head' = ub_block_number sample_update + 1 \<and>
        awaited_reached ?node (await_tag (sample_indexer BlockTagLatest)) head' moved')"
    by (rule sample_index.sync_follows [OF sample_follows s sample_node_chain.chain_provider_axioms _ _ sample_serves
        sample_positions])
      (auto simp: sample_update_def agree_below_def)
  with s that show thesis by (auto simp: sample_update_def sample_latest move_bound_def awaited_reached_def)
qed

text \<open>The sample transaction calls address 7 with no input, and no assertion of the sample EVM holds.\<close>

abbreviation sample_tracer :: call_tracer where
  "sample_tracer \<equiv> record_call call_tracer_new (sample_call 7 [])"

abbreviation sample_run :: result_and_state where
  "sample_run \<equiv> \<lparr>ras_result = EvmSuccess 21000 [] [], ras_state = []\<rparr>"

lemma sample_tx_run:
  "execute_forked_tx_ext_db sample_revm cfg sample_block sample_tx_env fork () =
    (Inr (sample_tracer, sample_run) :: ((unit, unit, unit) executor_error, _) result, fork, ())"
  by (simp add: execute_forked_tx_ext_db_def sample_revm_def new_tx_fork_evm_def new_ctx_and_handler_cfg_def fork_commit_def)

lemma sample_selected: "selects \<lparr>recorded_triggers = [(AllCalls, [9])]\<rparr> (fired sample_tracer 7) 9"
proof -
  have "Call 0 \<in> fired sample_tracer 7"
    by (simp add: fired_eq record_call_def call_tracer_new_def sample_call_def input_selector_def)
  then show ?thesis by (auto simp: selects_def registered_def is_call_trigger_def intro!: bexI [of _ "Call 0"])
qed

lemma sample_not_holds: "\<not> assertion_holds sample_revm cfg block pre post lt a ac s"
  by (simp add: assertion_holds_def execute_assertion_fn_def case_prod_unfold Let_def sample_revm_def afr_is_success_def)

lemma sample_event: "rl_log_index sample_log = Some 0" "rl_block_number sample_log = Some 1"
  by (simp_all add: sample_log_def)

lemma sample_only_event:
  assumes "extract_pending_modifications sample_index_env config sample_log 0 = Inr (Some add)"
  shows "(j, m) \<in> set (block_modifications sample_index_env config [sample_log] b) \<Longrightarrow> m = add"
    and "m \<in> set (chain_mods sample_index_env config [sample_log] moved) \<Longrightarrow> m = add"
  using assms sample_event by (auto simp: chain_mods_def set_block_modifications)

text \<open>The event of block 1 of the sample chain, synced and then violated by a transaction.\<close>

theorem indexed_assertion_enforced_witness:
  "\<exists>ix' res ext'. sync sample_index_env (\<lambda>_. sample_node 3 [sample_log]) sample_update 2
      (sample_indexer BlockTagLatest) = Some (Inr (), ix') \<and>
    validate_transaction_ext_db sample_revm map_sled plain_bincode (sample_executor\<lparr>ex_store := ix_store ix'\<rparr>)
      sample_schedule sample_block sample_tx_env (fork_new (sample_db 1)) () =
        (Inr res, fork_new (sample_db 1), ext') \<and> \<not> is_valid res"
proof -
  obtain ix' moved' where s: "sync sample_index_env (\<lambda>_. sample_node 3 [sample_log]) sample_update 2
      (sample_indexer BlockTagLatest) = Some (Inr (), ix')"
    and f: "follows_chain sample_index_env map_of (\<lambda>m. m) [sample_log] (\<lambda>_. []) moved' 3 ix'" and m: "3 \<le> moved'"
    by (rule sample_indexed)
  obtain c where c: "\<And>config. extract_pending_modifications sample_index_env config sample_log 0 =
      Inr (Some (AddMod 7 c \<lparr>recorded_triggers = [(AllCalls, [9])]\<rparr> 3 0))" "ac_id c = 2"
    by (rule sample_modification) (rule that)
  obtain r f' e' where v: "validate_transaction_ext_db sample_revm map_sled plain_bincode (sample_executor\<lparr>ex_store := ix_store ix'\<rparr>)
      sample_schedule sample_block sample_tx_env (fork_new (sample_db 1)) () = (Inr r, f', e')"
    using sample_validates by blast
  have "1 < moved'" using m by (rule less_le_trans [rotated]) simp
  have "\<not> is_valid r \<and> f' = fork_new (sample_db 1)"
    by (rule indexed_assertion_enforced [OF sample_index.indexed_store_axioms f _ sample_event(2) \<open>1 < moved'\<close>
        sample_event(1) c(1) sample_only_event(2) [OF c(1)] _ _ _ sample_tx_run _ sample_selected _ sample_not_holds])
      (use v in \<open>simp_all add: sample_block_def u64_max_def\<close>)
  with s v show ?thesis by blast
qed

text \<open>The sample chain indexed in one range, and block 3 arriving while the indexer runs.\<close>

definition sample_block3 :: block_header where
  "sample_block3 = \<lparr>hdr_number = 3, hdr_hash = 4, hdr_parent_hash = 3\<rparr>"

definition sample_stream3 :: "nat \<Rightarrow> (unit, block_header) result" where
  "sample_stream3 n = (if n = 0 then Inr sample_block3 else Inl ())"

lemma sample_started:
  obtains ix0 where "index_range sample_index_env (sample_node 3 [sample_log]) 0 2 (sample_indexer BlockTagLatest) = Some (Inr (), ix0)"
    and "follows_chain sample_index_env map_of (\<lambda>m. m) [sample_log] (\<lambda>_. []) 3 3 ix0"
    and "last_indexed_is sample_index_env map_of ix0 \<lparr>bnh_number = 2, bnh_hash = 3\<rparr>"
    and "decodable (env_codec sample_index_env) (view_of sample_index_env map_of ix0)"
    and "settings ix0 = settings (sample_indexer BlockTagLatest)"
proof -
  obtain ix0 where i: "index_range sample_index_env (sample_node 3 [sample_log]) 0 2 (sample_indexer BlockTagLatest) = Some (Inr (), ix0)"
    using sample_index.index_range_succeeds [OF sample_ready, where a = 0 and b = 2]
    by (auto simp: block_keys_def decodable_def sample_view)
  have hdr: "get_block_by_number (sample_node 3 [sample_log]) (TagNumber 2) =
      Inr (Some \<lparr>hdr_number = 2, hdr_hash = 3, hdr_parent_hash = 2\<rparr>)" by (simp add: sample_node_def)
  have "follows_chain sample_index_env map_of (\<lambda>m. m) [sample_log] (\<lambda>_. []) 3 3 ix0 \<and>
      last_indexed_is sample_index_env map_of ix0 \<lparr>bnh_number = 2, bnh_hash = 3\<rparr>"
    using sample_index.index_range_follows [OF sample_follows i _ _ sample_serves sample_positions] hdr
    by (auto simp: sample_latest move_bound_def u64_max_def)
  moreover have bk: "block_keys (env_codec sample_index_env) (map_of (block_hash_tree (sample_indexer BlockTagLatest)))"
    and rd: "readable (env_store_bincode sample_index_env) (ix_store (sample_indexer BlockTagLatest)) x" for x
    using sample_follows [of "[]" BlockTagLatest] unfolding follows_chain_def by blast+
  have dist: "distinct (map log_position logs)"
    if "get_logs_in (sample_node 3 [sample_log]) (state_oracle (sample_indexer BlockTagLatest)) 0 2 = Inr logs" for logs
    using that by (auto simp: sample_node_def)
  have "decodable (env_codec sample_index_env) (view_of sample_index_env map_of (sample_indexer BlockTagLatest)) \<longrightarrow>
      decodable (env_codec sample_index_env) (view_of sample_index_env map_of ix0)"
    using sample_index.index_range_ok [OF i _ bk rd dist] by fastforce
  then have "decodable (env_codec sample_index_env) (view_of sample_index_env map_of ix0)"
    by (simp add: decodable_def sample_view)
  moreover have "settings ix0 = settings (sample_indexer BlockTagLatest)"
    using index_range_keeps i by (fastforce simp: keeps_def)
  ultimately show thesis using that i by blast
qed

lemma sample_handles3:
  assumes "follows_chain sample_index_env map_of (\<lambda>m. m) [sample_log] st moved 3 ix0"
    and "last_indexed_is sample_index_env map_of ix0 \<lparr>bnh_number = 2, bnh_hash = 3\<rparr>"
    and "decodable (env_codec sample_index_env) (view_of sample_index_env map_of ix0)"
    and "settings ix0 = settings (sample_indexer BlockTagLatest)"
  shows "\<exists>ix1. handle_latest_block sample_index_env (\<lambda>_. sample_node 4 [sample_log]) sample_block3 ix0 = Some (Inr (), ix1)"
  unfolding handle_latest_block_def
proof (rule sample_index.sync_succeeds_lemma)
  show "node_ready sample_index_env (sample_node 4 [sample_log]) ix0 bound" for bound
    using sample_ready [of 4 BlockTagLatest bound] assms(4) by (simp add: node_ready_def settings_def)
  show "check_if_reorged (sample_node 4 [sample_log]) (header_update sample_block3) l = Some (Inr False)"
    if "last_indexed_is sample_index_env map_of ix0 l" for l
    using that assms(2) by (auto simp: last_indexed_is_def check_if_reorged_def header_update_def sample_block3_def
        reorg_walk.simps sample_node_def sample_chain_def)
qed (use assms in \<open>auto simp: follows_chain_def header_update_def sample_block3_def MAX_BLOCKS_PER_CALL_def\<close>)

theorem enforced_while_running_witness:
  "\<exists>ix0 ix1 res ext'. handled sample_index_env (\<lambda>_ _. sample_node 4 [sample_log]) sample_stream3 ix0 1 ix1 \<and>
    validate_transaction_ext_db sample_revm map_sled plain_bincode (sample_executor\<lparr>ex_store := ix_store ix1\<rparr>)
      sample_schedule sample_block sample_tx_env (fork_new (sample_db 1)) () =
        (Inr res, fork_new (sample_db 1), ext') \<and> \<not> is_valid res"
proof -
  let ?node = "\<lambda>(_ :: nat) (_ :: nat). sample_node 4 [sample_log]"
  obtain ix0 where f: "follows_chain sample_index_env map_of (\<lambda>m. m) [sample_log] (\<lambda>_. []) 3 3 ix0"
    and rest: "last_indexed_is sample_index_env map_of ix0 \<lparr>bnh_number = 2, bnh_hash = 3\<rparr>"
      "decodable (env_codec sample_index_env) (view_of sample_index_env map_of ix0)"
      "settings ix0 = settings (sample_indexer BlockTagLatest)" by (rule sample_started)
  from sample_handles3 [OF f rest] obtain ix1 where
    "handle_latest_block sample_index_env (?node 0) sample_block3 ix0 = Some (Inr (), ix1)" by blast
  then have h: "handled sample_index_env ?node sample_stream3 ix0 1 ix1"
    using handled_block [OF handled_none, of sample_stream3 sample_block3 sample_index_env ?node ix0]
    by (simp add: sample_stream3_def)
  obtain c where c: "\<And>config. extract_pending_modifications sample_index_env config sample_log 0 =
      Inr (Some (AddMod 7 c \<lparr>recorded_triggers = [(AllCalls, [9])]\<rparr> 3 0))" "ac_id c = 2"
    by (rule sample_modification) (rule that)
  obtain r f' e' where v: "validate_transaction_ext_db sample_revm map_sled plain_bincode (sample_executor\<lparr>ex_store := ix_store ix1\<rparr>)
      sample_schedule sample_block sample_tx_env (fork_new (sample_db 1)) () = (Inr r, f', e')"
    using sample_validates by blast
  have "\<not> is_valid r \<and> f' = fork_new (sample_db 1)"
    by (rule enforced_while_running [where logs = "\<lambda>_. [sample_log]" and moved = 3,
        OF sample_index.indexed_store_axioms f h _ _ _ sample_event(2) _ sample_event(1) c(1) sample_only_event(1) [OF c(1)]
        _ _ _ sample_tx_run _ sample_selected _ sample_not_holds])
      (use v in \<open>auto simp: sample_block_def u64_max_def sample_stream3_def sample_block3_def delivers_def sample_serves
        MAX_BLOCKS_PER_CALL_def shares_history_def agree_below_def sample_node_chain.chain_provider_axioms split: if_splits\<close>)
  with h v show ?thesis by blast
qed

end
